theory Spec2Isabelle
  imports Main "HOL-Library.Word"
begin

section \<open>Strings\<close>

text \<open>
  A JavaScript string is a sequence of UTF-16 code units. \<open>str\<close> writes an ASCII
  literal as such a sequence.
\<close>

type_synonym js_string = "16 word list"

definition str :: "string \<Rightarrow> js_string" where
  "str s = map of_char s"

text \<open>
  \<^verbatim>\<open>String.prototype.trim\<close> removes the leading and trailing code units that are
  ECMAScript WhiteSpace or LineTerminator: TAB, LF, VT, FF, CR, SP, NBSP, U+1680,
  U+2000 to U+200A, U+2028, U+2029, U+202F, U+205F, U+3000 and U+FEFF.
\<close>

definition isWhiteSpace :: "16 word \<Rightarrow> bool" where
  "isWhiteSpace c \<longleftrightarrow>
     c \<in> {0x9, 0xA, 0xB, 0xC, 0xD, 0x20, 0xA0, 0x1680, 0x2028, 0x2029, 0x202F, 0x205F,
          0x3000, 0xFEFF}
     \<or> (0x2000 \<le> c \<and> c \<le> 0x200A)"

definition trim :: "js_string \<Rightarrow> js_string" where
  "trim s = rev (dropWhile isWhiteSpace (rev (dropWhile isWhiteSpace s)))"

section \<open>Data model of \<^verbatim>\<open>src/app/page.tsx\<close>\<close>

text \<open>
  The interfaces of the source, field by field. A \<^verbatim>\<open>number\<close> field holds an integer
  (section 3 of the specification types the stock level, the reorder threshold and the
  quantity as integers); \<open><\<close> on such values is the order of \<open>int\<close>.
\<close>

record StreamLog =
  message :: js_string
  timestamp :: js_string

record InventoryItem =
  item_id :: js_string
  name :: js_string
  stock_level :: int
  reorder_threshold :: int
  supplier :: js_string
  last_updated :: js_string

record PurchaseOrder =
  order_id :: js_string
  item_id :: js_string
  quantity :: int
  supplier :: js_string
  order_date :: js_string
  status :: js_string
  item_name :: js_string

record RestockPlan =
  order_id :: js_string
  item_id :: js_string
  supplier :: js_string
  logistics_partner :: js_string
  estimated_arrival :: js_string
  delivery_method :: js_string

record SLAViolation =
  order_id :: js_string
  supplier :: js_string
  reason :: js_string
  reported_on :: js_string

record Metric =
  name :: js_string
  "value" :: int
  unit :: js_string
  description :: js_string

section \<open>Promises, responses and decoded bodies\<close>

text \<open>
  A promise that has settled is either rejected or fulfilled with a value.
  \<^verbatim>\<open>Promise.all\<close> of three promises is fulfilled when all three are, and rejected as
  soon as one of them is.
\<close>

datatype 'a settled = Rejected | Fulfilled 'a

fun Promise_all :: "'a settled \<Rightarrow> 'b settled \<Rightarrow> 'c settled \<Rightarrow> ('a \<times> 'b \<times> 'c) settled" where
  "Promise_all (Fulfilled a) (Fulfilled b) (Fulfilled c) = Fulfilled (a, b, c)"
| "Promise_all _ _ _ = Rejected"

text \<open>
  What \<^verbatim>\<open>fetch\<close> resolves to: the HTTP status (which the source never inspects) and
  the promise that \<^verbatim>\<open>res.json()\<close> returns, rejected when the body is not JSON.
\<close>

record 'b response =
  http_status :: nat
  json :: "'b settled"

text \<open>
  The decoded body of a collection endpoint, as \<^verbatim>\<open>x || []\<close> sees it: a falsy value
  (\<^verbatim>\<open>null\<close>, \<^verbatim>\<open>false\<close>, \<^verbatim>\<open>0\<close>, the empty string) or an array of the
  declared element type. The empty array is truthy.
\<close>

datatype 'a decoded = Falsy | Arr "'a list"

fun or_empty :: "'a decoded \<Rightarrow> 'a list" where
  "or_empty Falsy = []"
| "or_empty (Arr xs) = xs"

text \<open>
  The body of \<^verbatim>\<open>GET /run\<close>: \<^verbatim>\<open>null\<close>, on which every property access throws, or
  an object whose five properties may each be absent (\<open>None\<close> is \<^verbatim>\<open>undefined\<close>). A
  body that is a number, a string or a boolean reads as an object without properties.
\<close>

record run_data =
  inventory_data :: "InventoryItem list option"
  purchase_orders :: "PurchaseOrder list option"
  restock_plan :: "RestockPlan list option"
  sla_violations :: "SLAViolation list option"
  metrics :: "Metric list option"

datatype run_body = JNull | JObject run_data

section \<open>Effects and events\<close>

text \<open>
  The calls the component makes on its environment and on its own state setters, in the
  order it makes them. An \<^verbatim>\<open>EventSource\<close> is named by the number of sources created
  before it.
\<close>

datatype effect =
    SetIsRunning bool
  | SetActivityLogs
  | NewEventSource nat
  | Close nat
  | ConsoleError string
  | ConsoleLog string
  | Fetch string
  | SetInventory
  | SetPurchaseOrders
  | SetRestockPlan
  | SetSlaViolations
  | SetMetrics

text \<open>
  What the event loop delivers to the component: a click that the run button passes to
  its \<^verbatim>\<open>onClick\<close> handler, the events
  of an \<^verbatim>\<open>EventSource\<close> (a message carries its data and the value of
  \<^verbatim>\<open>new Date().toLocaleTimeString()\<close> at delivery), and the settling of the requests
  of one suspended \<^verbatim>\<open>async\<close> call.
\<close>

datatype 'r event =
    Click
  | StreamOpen nat
  | StreamMessage nat js_string js_string
  | StreamError nat
  | StreamEnd nat
  | Settled 'r

definition isOpen :: "bool list \<Rightarrow> nat \<Rightarrow> bool" where
  "isOpen srcs c \<longleftrightarrow> c < length srcs \<and> srcs ! c"

section \<open>The component with the combined \<^verbatim>\<open>/run\<close> payload (second document of the file)\<close>

text \<open>
  The \<^verbatim>\<open>useState\<close> cells, the sources created so far (\<open>True\<close> until
  \<^verbatim>\<open>close()\<close>), the number of suspended \<^verbatim>\<open>runSystem\<close> calls and the effects so far.
  A collection cell holds \<open>None\<close> once a setter was given \<^verbatim>\<open>undefined\<close>.
\<close>

record push_world =
  inventory :: "InventoryItem list option"
  purchaseOrders :: "PurchaseOrder list option"
  restockPlan :: "RestockPlan list option"
  slaViolations :: "SLAViolation list option"
  metrics :: "Metric list option"
  activityLogs :: "StreamLog list"
  isRunning :: bool
  eventSources :: "bool list"
  pending :: nat
  trace :: "effect list"

definition push_init :: push_world where
  "push_init =
     \<lparr>inventory = Some [], purchaseOrders = Some [], restockPlan = Some [],
      slaViolations = Some [], metrics = Some [], activityLogs = [], isRunning = False,
      eventSources = [], pending = 0, trace = []\<rparr>"

text \<open>\<^verbatim>\<open>runSystem\<close> up to its first \<^verbatim>\<open>await\<close>: the request to \<^verbatim>\<open>/run\<close> is issued here.\<close>

definition push_runSystem :: "push_world \<Rightarrow> push_world" where
  "push_runSystem w =
     w\<lparr>push_world.isRunning := True,
       push_world.activityLogs := [],
       push_world.eventSources := push_world.eventSources w @ [True],
       push_world.pending := Suc (push_world.pending w),
       push_world.trace := push_world.trace w @
         [SetIsRunning True, SetActivityLogs, NewEventSource (length (push_world.eventSources w)),
          Fetch ''http://localhost:8000/run'']\<rparr>"

text \<open>
  \<^verbatim>\<open>runSystem\<close> after its two \<^verbatim>\<open>await\<close>s. A rejected request, a body that is not
  JSON and a \<^verbatim>\<open>null\<close> body all throw before the first setter; nothing catches.
\<close>

definition push_runSystem_resume :: "run_body response settled \<Rightarrow> push_world \<Rightarrow> push_world" where
  "push_runSystem_resume r w =
     (case r of
        Rejected \<Rightarrow> w
      | Fulfilled res \<Rightarrow>
          (case json res of
             Rejected \<Rightarrow> w
           | Fulfilled JNull \<Rightarrow> w
           | Fulfilled (JObject d) \<Rightarrow>
               w\<lparr>push_world.inventory := inventory_data d,
                 push_world.purchaseOrders := purchase_orders d,
                 push_world.restockPlan := restock_plan d,
                 push_world.slaViolations := sla_violations d,
                 push_world.metrics := run_data.metrics d,
                 push_world.trace := push_world.trace w @
                   [SetInventory, SetPurchaseOrders, SetRestockPlan, SetSlaViolations,
                    SetMetrics]\<rparr>))"

definition push_onmessage :: "js_string \<Rightarrow> js_string \<Rightarrow> push_world \<Rightarrow> push_world" where
  "push_onmessage d now w =
     w\<lparr>push_world.activityLogs :=
         push_world.activityLogs w @ [\<lparr>message = trim d, timestamp = now\<rparr>],
       push_world.trace := push_world.trace w @ [SetActivityLogs]\<rparr>"

definition push_onerror :: "nat \<Rightarrow> push_world \<Rightarrow> push_world" where
  "push_onerror c w =
     w\<lparr>push_world.eventSources := (push_world.eventSources w)[c := False],
       push_world.isRunning := False,
       push_world.trace := push_world.trace w @ [Close c, SetIsRunning False]\<rparr>"

text \<open>
  One turn of the event loop. The handler of a click is \<^verbatim>\<open>onClick={runSystem}\<close>, and
  \<^verbatim>\<open>runSystem\<close> tests nothing. The component also passes \<^verbatim>\<open>disabled={isRunning}\<close>
  to the button; the button is not part of the source, and the clicks it holds back
  are events that do not occur. A closed source dispatches nothing. This component
  registers no listener for \<^verbatim>\<open>open\<close> and none for \<^verbatim>\<open>end\<close>.
\<close>

fun push_step :: "push_world \<Rightarrow> run_body response settled event \<Rightarrow> push_world" where
  "push_step w Click = push_runSystem w"
| "push_step w (StreamOpen c) = w"
| "push_step w (StreamMessage c d now) =
     (if isOpen (push_world.eventSources w) c then push_onmessage d now w else w)"
| "push_step w (StreamError c) =
     (if isOpen (push_world.eventSources w) c then push_onerror c w else w)"
| "push_step w (StreamEnd c) = w"
| "push_step w (Settled r) =
     (if 0 < push_world.pending w
      then push_runSystem_resume r (w\<lparr>push_world.pending := push_world.pending w - 1\<rparr>)
      else w)"

fun push_run :: "push_world \<Rightarrow> run_body response settled event list \<Rightarrow> push_world" where
  "push_run w [] = w"
| "push_run w (e # es) = push_run (push_step w e) es"

section \<open>The component with one \<^verbatim>\<open>GET\<close> per resource (first document of the file)\<close>

record pull_world =
  inventory :: "InventoryItem list"
  purchaseOrders :: "PurchaseOrder list"
  slaViolations :: "SLAViolation list"
  activityLogs :: "StreamLog list"
  isRunning :: bool
  eventSources :: "bool list"
  pending :: nat
  trace :: "effect list"

type_synonym fetched =
  "InventoryItem decoded response settled \<times> PurchaseOrder decoded response settled
   \<times> SLAViolation decoded response settled"

text \<open>\<^verbatim>\<open>fetchDashboardData\<close> up to its first \<^verbatim>\<open>await\<close>: the three requests are issued.\<close>

definition fetchDashboardData :: "pull_world \<Rightarrow> pull_world" where
  "fetchDashboardData w =
     w\<lparr>pending := Suc (pending w),
       trace := trace w @
         [Fetch ''http://localhost:8000/inventory'',
          Fetch ''http://localhost:8000/purchase-orders'',
          Fetch ''http://localhost:8000/sla-violations'']\<rparr>"

definition catch_fetch :: "pull_world \<Rightarrow> pull_world" where
  "catch_fetch w = w\<lparr>trace := trace w @ [ConsoleError ''Failed to load dashboard data:'']\<rparr>"

text \<open>
  \<^verbatim>\<open>fetchDashboardData\<close> after the requests have settled: both \<^verbatim>\<open>Promise.all\<close>
  calls sit in one \<^verbatim>\<open>try\<close>, whose \<^verbatim>\<open>catch\<close> only logs.
\<close>

definition fetchDashboardData_resume :: "fetched \<Rightarrow> pull_world \<Rightarrow> pull_world" where
  "fetchDashboardData_resume r w =
     (case r of (r1, r2, r3) \<Rightarrow>
        (case Promise_all r1 r2 r3 of
           Rejected \<Rightarrow> catch_fetch w
         | Fulfilled (inventoryRes, purchaseOrdersRes, slaViolationsRes) \<Rightarrow>
             (case Promise_all (json inventoryRes) (json purchaseOrdersRes)
                     (json slaViolationsRes) of
                Rejected \<Rightarrow> catch_fetch w
              | Fulfilled (inventoryData, purchaseOrderData, slaData) \<Rightarrow>
                  w\<lparr>inventory := or_empty inventoryData,
                    purchaseOrders := or_empty purchaseOrderData,
                    slaViolations := or_empty slaData,
                    trace := trace w @
                      [SetInventory, SetPurchaseOrders, SetSlaViolations]\<rparr>)))"

definition runSystem :: "pull_world \<Rightarrow> pull_world" where
  "runSystem w =
     w\<lparr>isRunning := True,
       activityLogs := [],
       eventSources := eventSources w @ [True],
       trace := trace w @
         [SetIsRunning True, SetActivityLogs, NewEventSource (length (eventSources w))]\<rparr>"

definition onmessage :: "js_string \<Rightarrow> js_string \<Rightarrow> pull_world \<Rightarrow> pull_world" where
  "onmessage d now w =
     w\<lparr>activityLogs := activityLogs w @ [\<lparr>message = trim d, timestamp = now\<rparr>],
       trace := trace w @ [SetActivityLogs]\<rparr>"

definition onerror :: "nat \<Rightarrow> pull_world \<Rightarrow> pull_world" where
  "onerror c w =
     fetchDashboardData
       (w\<lparr>eventSources := (eventSources w)[c := False],
          isRunning := False,
          trace := trace w @ [ConsoleError ''Stream error occurred'', Close c, SetIsRunning False]\<rparr>)"

definition onopen :: "pull_world \<Rightarrow> pull_world" where
  "onopen w = w\<lparr>trace := trace w @ [ConsoleLog ''Streaming started'']\<rparr>"

definition onend :: "nat \<Rightarrow> pull_world \<Rightarrow> pull_world" where
  "onend c w =
     fetchDashboardData
       (w\<lparr>eventSources := (eventSources w)[c := False],
          isRunning := False,
          trace := trace w @ [Close c, SetIsRunning False]\<rparr>)"

text \<open>
  One turn of the event loop, as for the other component: a click enters
  \<^verbatim>\<open>runSystem\<close>, which tests nothing, and a closed source dispatches nothing.
\<close>

fun pull_step :: "pull_world \<Rightarrow> fetched event \<Rightarrow> pull_world" where
  "pull_step w Click = runSystem w"
| "pull_step w (StreamOpen c) = (if isOpen (eventSources w) c then onopen w else w)"
| "pull_step w (StreamMessage c d now) =
     (if isOpen (eventSources w) c then onmessage d now w else w)"
| "pull_step w (StreamError c) = (if isOpen (eventSources w) c then onerror c w else w)"
| "pull_step w (StreamEnd c) = (if isOpen (eventSources w) c then onend c w else w)"
| "pull_step w (Settled r) =
     (if 0 < pending w then fetchDashboardData_resume r (w\<lparr>pending := pending w - 1\<rparr>)
      else w)"

fun pull_run :: "pull_world \<Rightarrow> fetched event list \<Rightarrow> pull_world" where
  "pull_run w [] = w"
| "pull_run w (e # es) = pull_run (pull_step w e) es"

text \<open>The mounted component: the effect with no dependencies calls \<^verbatim>\<open>fetchDashboardData\<close>.\<close>

definition pull_init :: pull_world where
  "pull_init =
     fetchDashboardData
       \<lparr>inventory = [], purchaseOrders = [], slaViolations = [], activityLogs = [],
        isRunning = False, eventSources = [], pending = 0, trace = []\<rparr>"

text \<open>The derived value of the render: \<^verbatim>\<open>inventory.filter(...)\<close>.\<close>

definition lowStockItems :: "pull_world \<Rightarrow> InventoryItem list" where
  "lowStockItems w = filter (\<lambda>item. stock_level item < reorder_threshold item) (inventory w)"

section \<open>Predicates and example inputs used in the statements\<close>

text \<open>A \<^verbatim>\<open>GET\<close> fails when the request is rejected or its body cannot be decoded.\<close>

fun get_fails :: "'b response settled \<Rightarrow> bool" where
  "get_fails Rejected = True"
| "get_fails (Fulfilled res) = (case json res of Rejected \<Rightarrow> True | Fulfilled _ \<Rightarrow> False)"

definition example_item :: "string \<Rightarrow> int \<Rightarrow> int \<Rightarrow> InventoryItem" where
  "example_item n s t =
     \<lparr>InventoryItem.item_id = str n, name = str n, stock_level = s, reorder_threshold = t,
      supplier = str ''ACME'', last_updated = str ''2025-01-01''\<rparr>"

definition ok_response :: "'b \<Rightarrow> 'b response settled" where
  "ok_response b = Fulfilled \<lparr>http_status = 200, json = Fulfilled b\<rparr>"

definition stale_world :: pull_world where
  "stale_world =
     \<lparr>inventory = [example_item ''bolt'' 5 10], purchaseOrders = [], slaViolations = [],
      activityLogs = [], isRunning = False, eventSources = [False], pending = 0,
      trace = []\<rparr>"

text \<open>Whether an event comes from the source \<open>c\<close>.\<close>

fun on_source :: "nat \<Rightarrow> 'r event \<Rightarrow> bool" where
  "on_source c (StreamOpen c') = (c' = c)"
| "on_source c (StreamMessage c' d now) = (c' = c)"
| "on_source c (StreamError c') = (c' = c)"
| "on_source c (StreamEnd c') = (c' = c)"
| "on_source c Click = False"
| "on_source c (Settled r) = False"

definition payload_without_metrics :: run_data where
  "payload_without_metrics =
     \<lparr>inventory_data = Some [example_item ''nut'' 20 5], purchase_orders = Some [],
      restock_plan = Some [], sla_violations = Some [], metrics = None\<rparr>"

text \<open>At most one source is open, and none is while the flag is down.\<close>

definition single_source :: "bool list \<Rightarrow> bool \<Rightarrow> bool" where
  "single_source srcs running \<longleftrightarrow>
     (\<forall>c c'. isOpen srcs c \<and> isOpen srcs c' \<longrightarrow> c = c') \<and>
     (\<not> running \<longrightarrow> (\<forall>c. \<not> isOpen srcs c))"

text \<open>
  Positions in the list of effects. \<open>after_terminal tr i\<close>: the two effects before
  position \<open>i\<close> are the \<^verbatim>\<open>close()\<close> of a source and \<^verbatim>\<open>setIsRunning(false)\<close>, the
  calls of a terminal handler. \<open>after_start tr i\<close>: the three effects before position
  \<open>i\<close> are the opening calls of \<^verbatim>\<open>runSystem\<close>.
\<close>

definition after_terminal :: "effect list \<Rightarrow> nat \<Rightarrow> bool" where
  "after_terminal tr i \<longleftrightarrow>
     2 \<le> i \<and> tr ! (i - 1) = SetIsRunning False \<and>
     (case tr ! (i - 2) of Close c \<Rightarrow> True | _ \<Rightarrow> False)"

definition after_start :: "effect list \<Rightarrow> nat \<Rightarrow> bool" where
  "after_start tr i \<longleftrightarrow>
     3 \<le> i \<and> (case tr ! (i - 1) of NewEventSource n \<Rightarrow> True | _ \<Rightarrow> False) \<and>
     tr ! (i - 2) = SetActivityLogs \<and> tr ! (i - 3) = SetIsRunning True"

text \<open>
  Where a request may stand in the effects of the component with one request per
  resource: the three requests of one \<^verbatim>\<open>fetchDashboardData\<close> call stand together, in
  the order of the source, and the first of them stands at the very beginning (the
  call of the mount) or right after the calls of a terminal handler.
\<close>

definition pull_fetch_at :: "effect list \<Rightarrow> nat \<Rightarrow> string \<Rightarrow> bool" where
  "pull_fetch_at tr i u \<longleftrightarrow>
     (u = ''http://localhost:8000/inventory'' \<and> (i = 0 \<or> after_terminal tr i))
     \<or> (u = ''http://localhost:8000/purchase-orders'' \<and> 1 \<le> i \<and>
        (i = 1 \<or> after_terminal tr (i - 1)) \<and>
        tr ! (i - 1) = Fetch ''http://localhost:8000/inventory'')
     \<or> (u = ''http://localhost:8000/sla-violations'' \<and> 2 \<le> i \<and>
        (i = 2 \<or> after_terminal tr (i - 2)) \<and>
        tr ! (i - 1) = Fetch ''http://localhost:8000/purchase-orders'' \<and>
        tr ! (i - 2) = Fetch ''http://localhost:8000/inventory'')"

definition pull_fetch_ordered :: "effect list \<Rightarrow> bool" where
  "pull_fetch_ordered tr \<longleftrightarrow>
     (\<forall>i < length tr. \<forall>u. tr ! i = Fetch u \<longrightarrow> pull_fetch_at tr i u)"

definition push_fetch_ordered :: "effect list \<Rightarrow> bool" where
  "push_fetch_ordered tr \<longleftrightarrow>
     (\<forall>i < length tr. \<forall>u. tr ! i = Fetch u \<longrightarrow>
        u = ''http://localhost:8000/run'' \<and> after_start tr i)"

text \<open>Every click of the sequence arrives in a state whose \<^verbatim>\<open>isRunning\<close> is false.\<close>

fun pull_idle_clicks :: "pull_world \<Rightarrow> fetched event list \<Rightarrow> bool" where
  "pull_idle_clicks w [] = True"
| "pull_idle_clicks w (e # es) =
     ((case e of Click \<Rightarrow> \<not> isRunning w | _ \<Rightarrow> True) \<and> pull_idle_clicks (pull_step w e) es)"

fun push_idle_clicks :: "push_world \<Rightarrow> run_body response settled event list \<Rightarrow> bool" where
  "push_idle_clicks w [] = True"
| "push_idle_clicks w (e # es) =
     ((case e of Click \<Rightarrow> \<not> push_world.isRunning w | _ \<Rightarrow> True) \<and>
      push_idle_clicks (push_step w e) es)"

section \<open>Event sources and the running flag\<close>

lemma isOpen_append [simp]: "isOpen (xs @ [True]) c \<longleftrightarrow> isOpen xs c \<or> c = length xs"
  by (auto simp: isOpen_def nth_append)

lemma isOpen_close [simp]: "isOpen (xs[c := False]) c' \<longleftrightarrow> isOpen xs c' \<and> c' \<noteq> c"
  by (cases "c = c'") (auto simp: isOpen_def)

lemma isOpen_Nil [simp]: "\<not> isOpen [] c"
  by (simp add: isOpen_def)

lemma resume_session [simp]:
  "eventSources (fetchDashboardData_resume r w) = eventSources w"
  "isRunning (fetchDashboardData_resume r w) = isRunning w"
  "activityLogs (fetchDashboardData_resume r w) = activityLogs w"
  by (auto simp: fetchDashboardData_resume_def catch_fetch_def split: settled.splits prod.splits)

lemma push_resume_session [simp]:
  "push_world.eventSources (push_runSystem_resume r w) = push_world.eventSources w"
  "push_world.isRunning (push_runSystem_resume r w) = push_world.isRunning w"
  "push_world.activityLogs (push_runSystem_resume r w) = push_world.activityLogs w"
  by (auto simp: push_runSystem_resume_def split: settled.splits run_body.splits)

lemma pull_step_single:
  "single_source (eventSources w) (isRunning w) \<Longrightarrow>
   (case e of Click \<Rightarrow> \<not> isRunning w | _ \<Rightarrow> True) \<Longrightarrow>
   single_source (eventSources (pull_step w e)) (isRunning (pull_step w e))"
  by (cases e)
     (auto simp: single_source_def runSystem_def onopen_def onmessage_def
        onerror_def onend_def fetchDashboardData_def)

lemma pull_run_single:
  "single_source (eventSources w) (isRunning w) \<Longrightarrow> pull_idle_clicks w es \<Longrightarrow>
   single_source (eventSources (pull_run w es)) (isRunning (pull_run w es))"
  by (induction es arbitrary: w) (simp_all add: pull_step_single del: pull_step.simps)

lemma push_step_single:
  "single_source (push_world.eventSources w) (push_world.isRunning w) \<Longrightarrow>
   (case e of Click \<Rightarrow> \<not> push_world.isRunning w | _ \<Rightarrow> True) \<Longrightarrow>
   single_source (push_world.eventSources (push_step w e)) (push_world.isRunning (push_step w e))"
  by (cases e)
     (auto simp: single_source_def push_runSystem_def push_onmessage_def push_onerror_def)

lemma push_run_single:
  "single_source (push_world.eventSources w) (push_world.isRunning w) \<Longrightarrow>
   push_idle_clicks w es \<Longrightarrow>
   single_source (push_world.eventSources (push_run w es)) (push_world.isRunning (push_run w es))"
  by (induction es arbitrary: w) (simp_all add: push_step_single del: push_step.simps)

lemma isOpen_card_append:
  "card {c. isOpen (xs @ [True]) c} = Suc (card {c. isOpen xs c})"
proof -
  have "{c. isOpen xs c} \<subseteq> {..<length xs}"
    by (auto simp: isOpen_def)
  then have f: "finite {c. isOpen xs c}"
    by (rule finite_subset) simp
  have e: "{c. isOpen (xs @ [True]) c} = insert (length xs) {c. isOpen xs c}"
    by auto
  have n: "length xs \<notin> {c. isOpen xs c}"
    by (simp add: isOpen_def)
  from f n show ?thesis
    unfolding e by (rule card_insert_disjoint)
qed

lemma single_source_card:
  assumes "single_source srcs running"
  shows "card {c. isOpen srcs c} \<le> 1"
proof -
  have "{c. isOpen srcs c} \<subseteq> {..<length srcs}"
    by (auto simp: isOpen_def)
  then have "finite {c. isOpen srcs c}"
    by (rule finite_subset) simp
  then show ?thesis
    using assms by (simp add: card_le_Suc0_iff_eq single_source_def)
qed

lemma pull_init_single: "single_source (eventSources pull_init) (isRunning pull_init)"
  by (simp add: single_source_def pull_init_def fetchDashboardData_def)

lemma push_init_single: "single_source (push_world.eventSources push_init) (push_world.isRunning push_init)"
  by (simp add: single_source_def push_init_def)

text \<open>
  C2, as stated: in a Running state a further invocation of \<^verbatim>\<open>runSystem\<close> is a no-op
  that keeps the log buffer and opens no second connection. It fails: \<^verbatim>\<open>runSystem\<close>
  tests nothing, so after a start and one message a second invocation finds
  \<^verbatim>\<open>isRunning\<close> true, empties the buffer and leaves two sources open, in both
  components.
\<close>

theorem second_start_not_noop_counterexample:
  "isRunning (pull_run pull_init [Click, StreamMessage 0 (str ''a'') (str ''10:00:01'')])
   \<and> activityLogs (pull_run pull_init [Click, StreamMessage 0 (str ''a'') (str ''10:00:01'')])
       = [\<lparr>message = str ''a'', timestamp = str ''10:00:01''\<rparr>]
   \<and> eventSources (pull_run pull_init [Click, StreamMessage 0 (str ''a'') (str ''10:00:01'')])
       = [True]
   \<and> activityLogs
       (runSystem (pull_run pull_init [Click, StreamMessage 0 (str ''a'') (str ''10:00:01'')]))
       = []
   \<and> eventSources
       (runSystem (pull_run pull_init [Click, StreamMessage 0 (str ''a'') (str ''10:00:01'')]))
       = [True, True]
   \<and> push_world.isRunning (push_run push_init [Click])
   \<and> push_world.eventSources (push_runSystem (push_run push_init [Click])) = [True, True]"
  by (simp add: pull_init_def push_init_def fetchDashboardData_def runSystem_def
      push_runSystem_def onmessage_def isOpen_def trim_def str_def isWhiteSpace_def)

text \<open>
  C2, amended: \<^verbatim>\<open>runSystem\<close> tests nothing: invoked in any state, Running or not, it
  empties the log buffer, sets \<^verbatim>\<open>isRunning\<close> to true and opens one more source,
  leaving the earlier ones as they are, so that one more source is open than before.
  At most one source is open at a time as long as every start arrives in a state whose
  \<^verbatim>\<open>isRunning\<close> is false: for every sequence of events of the mounted component in
  which each click finds \<^verbatim>\<open>isRunning\<close> false, at most one source is open afterwards.
  Both components.
\<close>

theorem runSystem_unguarded:
  "activityLogs (runSystem w) = []
   \<and> isRunning (runSystem w)
   \<and> eventSources (runSystem w) = eventSources w @ [True]
   \<and> card {c. isOpen (eventSources (runSystem w)) c} = Suc (card {c. isOpen (eventSources w) c})
   \<and> push_world.activityLogs (push_runSystem v) = []
   \<and> push_world.isRunning (push_runSystem v)
   \<and> push_world.eventSources (push_runSystem v) = push_world.eventSources v @ [True]
   \<and> card {c. isOpen (push_world.eventSources (push_runSystem v)) c}
       = Suc (card {c. isOpen (push_world.eventSources v) c})
   \<and> (pull_idle_clicks pull_init es \<longrightarrow>
      card {c. isOpen (eventSources (pull_run pull_init es)) c} \<le> 1)
   \<and> (push_idle_clicks push_init es' \<longrightarrow>
      card {c. isOpen (push_world.eventSources (push_run push_init es')) c} \<le> 1)"
proof (intro conjI impI)
  have "eventSources (runSystem w) = eventSources w @ [True]"
    by (simp add: runSystem_def)
  then show "card {c. isOpen (eventSources (runSystem w)) c}
      = Suc (card {c. isOpen (eventSources w) c})"
    by (simp only: isOpen_card_append)
  have "push_world.eventSources (push_runSystem v) = push_world.eventSources v @ [True]"
    by (simp add: push_runSystem_def)
  then show "card {c. isOpen (push_world.eventSources (push_runSystem v)) c}
       = Suc (card {c. isOpen (push_world.eventSources v) c})"
    by (simp only: isOpen_card_append)
next
  assume "pull_idle_clicks pull_init es"
  with pull_init_single
  have "single_source (eventSources (pull_run pull_init es)) (isRunning (pull_run pull_init es))"
    by (rule pull_run_single)
  then show "card {c. isOpen (eventSources (pull_run pull_init es)) c} \<le> 1"
    by (rule single_source_card)
next
  assume "push_idle_clicks push_init es'"
  with push_init_single
  have "single_source (push_world.eventSources (push_run push_init es'))
          (push_world.isRunning (push_run push_init es'))"
    by (rule push_run_single)
  then show "card {c. isOpen (push_world.eventSources (push_run push_init es')) c} \<le> 1"
    by (rule single_source_card)
qed (simp_all add: runSystem_def push_runSystem_def)

theorem runSystem_unguarded_witness:
  "isRunning (runSystem pull_init)
   \<and> card {c. isOpen (eventSources (runSystem (runSystem pull_init))) c} = 2
   \<and> pull_idle_clicks pull_init
       [Click, StreamMessage 0 (str ''a'') (str ''10:00:01''), StreamEnd 0, Click]
   \<and> card {c. isOpen
         (eventSources
            (pull_run pull_init
               [Click, StreamMessage 0 (str ''a'') (str ''10:00:01''), StreamEnd 0, Click])) c}
       \<le> 1
   \<and> push_idle_clicks push_init [Click, StreamError 0, Click]
   \<and> card {c. isOpen
         (push_world.eventSources (push_run push_init [Click, StreamError 0, Click])) c} \<le> 1"
proof -
  let ?es = "[Click, StreamMessage 0 (str ''a'') (str ''10:00:01''), StreamEnd 0, Click]"
  let ?es' = "[Click, StreamError 0, Click]"
  have 0: "card {c. isOpen (eventSources pull_init) c} = 0"
    by (simp add: pull_init_def fetchDashboardData_def)
  have 1: "pull_idle_clicks pull_init ?es"
    by (simp add: pull_init_def fetchDashboardData_def runSystem_def onmessage_def onend_def
        isOpen_def)
  have 2: "push_idle_clicks push_init ?es'"
    by (simp add: push_init_def push_runSystem_def push_onerror_def isOpen_def)
  note A = runSystem_unguarded [of pull_init push_init ?es ?es']
  note B = runSystem_unguarded [of "runSystem pull_init" push_init ?es ?es']
  from A have a: "isRunning (runSystem pull_init)"
    and a': "card {c. isOpen (eventSources (runSystem pull_init)) c}
               = Suc (card {c. isOpen (eventSources pull_init) c})"
    by blast+
  from B have b: "card {c. isOpen (eventSources (runSystem (runSystem pull_init))) c}
               = Suc (card {c. isOpen (eventSources (runSystem pull_init)) c})"
    by blast
  from a' b 0 have c: "card {c. isOpen (eventSources (runSystem (runSystem pull_init))) c} = 2"
    by simp
  from A 1 have d: "card {c. isOpen (eventSources (pull_run pull_init ?es)) c} \<le> 1"
    by blast
  from A 2 have e: "card {c. isOpen (push_world.eventSources (push_run push_init ?es')) c} \<le> 1"
    by blast
  from a c 1 d 2 e show ?thesis
    by (intro conjI)
qed

section \<open>The log buffer\<close>

lemma pull_messages:
  "isOpen (eventSources w) c \<Longrightarrow>
   pull_run w (map (\<lambda>(d, t). StreamMessage c d t) ms) =
     w\<lparr>activityLogs := activityLogs w @ map (\<lambda>(d, t). \<lparr>message = trim d, timestamp = t\<rparr>) ms,
       trace := trace w @ replicate (length ms) SetActivityLogs\<rparr>"
proof (induction ms arbitrary: w)
  case Nil
  then show ?case by simp
next
  case (Cons m ms)
  obtain d t where m: "m = (d, t)" by (cases m)
  have o: "isOpen (eventSources (onmessage d t w)) c"
    using Cons.prems by (simp add: onmessage_def)
  show ?case
    using Cons.prems Cons.IH [OF o]
    by (simp add: m onmessage_def replicate_app_Cons_same)
qed

lemma push_messages:
  "isOpen (push_world.eventSources w) c \<Longrightarrow>
   push_run w (map (\<lambda>(d, t). StreamMessage c d t) ms) =
     w\<lparr>push_world.activityLogs :=
         push_world.activityLogs w @ map (\<lambda>(d, t). \<lparr>message = trim d, timestamp = t\<rparr>) ms,
       push_world.trace := push_world.trace w @ replicate (length ms) SetActivityLogs\<rparr>"
proof (induction ms arbitrary: w)
  case Nil
  then show ?case by simp
next
  case (Cons m ms)
  obtain d t where m: "m = (d, t)" by (cases m)
  have o: "isOpen (push_world.eventSources (push_onmessage d t w)) c"
    using Cons.prems by (simp add: push_onmessage_def)
  show ?case
    using Cons.prems Cons.IH [OF o]
    by (simp add: m push_onmessage_def replicate_app_Cons_same)
qed

text \<open>
  C8: \<open>N\<close> messages delivered on an open source, with no end and no error event,
  append \<open>N\<close> entries to the buffer, one per message, in arrival order, each the
  trimmed data with the time of delivery; the entries already there are kept as they
  are. Started by \<^verbatim>\<open>runSystem\<close>, the buffer is exactly the entries of the messages.
  Both components.
\<close>

theorem messages_append_in_order:
  "(isOpen (eventSources w) c \<longrightarrow>
      activityLogs (pull_run w (map (\<lambda>(d, t). StreamMessage c d t) ms)) =
        activityLogs w @ map (\<lambda>(d, t). \<lparr>message = trim d, timestamp = t\<rparr>) ms)
   \<and> activityLogs
       (pull_run (runSystem w) (map (\<lambda>(d, t). StreamMessage (length (eventSources w)) d t) ms)) =
       map (\<lambda>(d, t). \<lparr>message = trim d, timestamp = t\<rparr>) ms
   \<and> (isOpen (push_world.eventSources v) c \<longrightarrow>
      push_world.activityLogs (push_run v (map (\<lambda>(d, t). StreamMessage c d t) ms)) =
        push_world.activityLogs v @ map (\<lambda>(d, t). \<lparr>message = trim d, timestamp = t\<rparr>) ms)
   \<and> push_world.activityLogs
       (push_run (push_runSystem v)
          (map (\<lambda>(d, t). StreamMessage (length (push_world.eventSources v)) d t) ms)) =
       map (\<lambda>(d, t). \<lparr>message = trim d, timestamp = t\<rparr>) ms"
proof -
  have 1: "isOpen (eventSources (runSystem w)) (length (eventSources w))"
    by (simp add: runSystem_def)
  have 2: "isOpen (push_world.eventSources (push_runSystem v)) (length (push_world.eventSources v))"
    by (simp add: push_runSystem_def)
  show ?thesis
    using pull_messages [OF 1, of ms] push_messages [OF 2, of ms]
    by (simp add: pull_messages push_messages runSystem_def push_runSystem_def)
qed

theorem messages_append_in_order_witness:
  "activityLogs
     (pull_run (runSystem pull_init)
        [StreamMessage 0 (str '' Checking inventory levels... '') (str ''10:00:01''),
         StreamMessage 0 (str ''Placing order PO-1001'') (str ''10:00:02'')])
   = [\<lparr>message = str ''Checking inventory levels...'', timestamp = str ''10:00:01''\<rparr>,
      \<lparr>message = str ''Placing order PO-1001'', timestamp = str ''10:00:02''\<rparr>]"
proof -
  have o: "isOpen (eventSources (runSystem pull_init)) 0"
    by (simp add: runSystem_def pull_init_def fetchDashboardData_def isOpen_def)
  have l: "activityLogs (runSystem pull_init) = []"
    by (simp add: runSystem_def)
  have t1: "trim (str '' Checking inventory levels... '') = str ''Checking inventory levels...''"
    by (simp add: trim_def str_def isWhiteSpace_def)
  have t2: "trim (str ''Placing order PO-1001'') = str ''Placing order PO-1001''"
    by (simp add: trim_def str_def isWhiteSpace_def)
  from messages_append_in_order [of "runSystem pull_init" 0
      "[(str '' Checking inventory levels... '', str ''10:00:01''),
        (str ''Placing order PO-1001'', str ''10:00:02'')]"] o
  show ?thesis
    by (simp add: l t1 t2 del: pull_run.simps pull_step.simps)
qed



section \<open>The end of a run\<close>

lemma pull_run_append: "pull_run w (xs @ ys) = pull_run (pull_run w xs) ys"
  by (induction xs arbitrary: w) simp_all

lemma push_run_append: "push_run w (xs @ ys) = push_run (push_run w xs) ys"
  by (induction xs arbitrary: w) simp_all

lemma pull_closed_ignores:
  "\<not> isOpen (eventSources w) c \<Longrightarrow> \<forall>e \<in> set es. on_source c e \<Longrightarrow> pull_run w es = w"
proof (induction es)
  case Nil
  then show ?case by simp
next
  case (Cons e es)
  then have "pull_step w e = w" by (cases e) auto
  with Cons show ?case by simp
qed

lemma push_closed_ignores:
  "\<not> isOpen (push_world.eventSources w) c \<Longrightarrow> \<forall>e \<in> set es. on_source c e \<Longrightarrow> push_run w es = w"
proof (induction es)
  case Nil
  then show ?case by simp
next
  case (Cons e es)
  then have "push_step w e = w" by (cases e) auto
  with Cons show ?case by simp
qed

lemma pull_run_to_end:
  assumes "isOpen (eventSources w) c" and "\<forall>e \<in> set rest. on_source c e"
  shows "pull_run w (map (\<lambda>(d, t). StreamMessage c d t) ms @ StreamEnd c # rest) =
     w\<lparr>activityLogs := activityLogs w @ map (\<lambda>(d, t). \<lparr>message = trim d, timestamp = t\<rparr>) ms,
       isRunning := False,
       eventSources := (eventSources w)[c := False],
       pending := Suc (pending w),
       trace := trace w @ replicate (length ms) SetActivityLogs @
         [Close c, SetIsRunning False,
          Fetch ''http://localhost:8000/inventory'',
          Fetch ''http://localhost:8000/purchase-orders'',
          Fetch ''http://localhost:8000/sla-violations'']\<rparr>"
proof -
  let ?w1 = "pull_run w (map (\<lambda>(d, t). StreamMessage c d t) ms)"
  have o: "isOpen (eventSources ?w1) c"
    using assms(1) by (simp add: pull_messages)
  have c: "\<not> isOpen (eventSources (onend c ?w1)) c"
    by (simp add: onend_def fetchDashboardData_def)
  have "pull_run w (map (\<lambda>(d, t). StreamMessage c d t) ms @ StreamEnd c # rest)
        = pull_run (onend c ?w1) rest"
    using o by (simp add: pull_run_append)
  also have "\<dots> = onend c ?w1"
    using c assms(2) by (rule pull_closed_ignores)
  also have "\<dots> = w\<lparr>activityLogs := activityLogs w @ map (\<lambda>(d, t). \<lparr>message = trim d, timestamp = t\<rparr>) ms,
       isRunning := False,
       eventSources := (eventSources w)[c := False],
       pending := Suc (pending w),
       trace := trace w @ replicate (length ms) SetActivityLogs @
         [Close c, SetIsRunning False,
          Fetch ''http://localhost:8000/inventory'',
          Fetch ''http://localhost:8000/purchase-orders'',
          Fetch ''http://localhost:8000/sla-violations'']\<rparr>"
    using assms(1) by (simp add: pull_messages onend_def fetchDashboardData_def)
  finally show ?thesis .
qed

lemma pull_run_to_error:
  assumes "isOpen (eventSources w) c" and "\<forall>e \<in> set rest. on_source c e"
  shows "pull_run w (map (\<lambda>(d, t). StreamMessage c d t) ms @ StreamError c # rest) =
     w\<lparr>activityLogs := activityLogs w @ map (\<lambda>(d, t). \<lparr>message = trim d, timestamp = t\<rparr>) ms,
       isRunning := False,
       eventSources := (eventSources w)[c := False],
       pending := Suc (pending w),
       trace := trace w @ replicate (length ms) SetActivityLogs @
         [ConsoleError ''Stream error occurred'', Close c, SetIsRunning False,
          Fetch ''http://localhost:8000/inventory'',
          Fetch ''http://localhost:8000/purchase-orders'',
          Fetch ''http://localhost:8000/sla-violations'']\<rparr>"
proof -
  let ?w1 = "pull_run w (map (\<lambda>(d, t). StreamMessage c d t) ms)"
  have o: "isOpen (eventSources ?w1) c"
    using assms(1) by (simp add: pull_messages)
  have c: "\<not> isOpen (eventSources (onerror c ?w1)) c"
    by (simp add: onerror_def fetchDashboardData_def)
  have "pull_run w (map (\<lambda>(d, t). StreamMessage c d t) ms @ StreamError c # rest)
        = pull_run (onerror c ?w1) rest"
    using o by (simp add: pull_run_append)
  also have "\<dots> = onerror c ?w1"
    using c assms(2) by (rule pull_closed_ignores)
  also have "\<dots> = w\<lparr>activityLogs := activityLogs w @ map (\<lambda>(d, t). \<lparr>message = trim d, timestamp = t\<rparr>) ms,
       isRunning := False,
       eventSources := (eventSources w)[c := False],
       pending := Suc (pending w),
       trace := trace w @ replicate (length ms) SetActivityLogs @
         [ConsoleError ''Stream error occurred'', Close c, SetIsRunning False,
          Fetch ''http://localhost:8000/inventory'',
          Fetch ''http://localhost:8000/purchase-orders'',
          Fetch ''http://localhost:8000/sla-violations'']\<rparr>"
    using assms(1) by (simp add: pull_messages onerror_def fetchDashboardData_def)
  finally show ?thesis .
qed

lemma push_run_to_error:
  assumes "isOpen (push_world.eventSources v) c" and "\<forall>e \<in> set rest. on_source c e"
  shows "push_run v (map (\<lambda>(d, t). StreamMessage c d t) ms @ StreamError c # rest) =
     v\<lparr>push_world.activityLogs :=
         push_world.activityLogs v @ map (\<lambda>(d, t). \<lparr>message = trim d, timestamp = t\<rparr>) ms,
       push_world.isRunning := False,
       push_world.eventSources := (push_world.eventSources v)[c := False],
       push_world.trace := push_world.trace v @ replicate (length ms) SetActivityLogs @
         [Close c, SetIsRunning False]\<rparr>"
proof -
  let ?v1 = "push_run v (map (\<lambda>(d, t). StreamMessage c d t) ms)"
  have o: "isOpen (push_world.eventSources ?v1) c"
    using assms(1) by (simp add: push_messages)
  have c: "\<not> isOpen (push_world.eventSources (push_onerror c ?v1)) c"
    by (simp add: push_onerror_def)
  have "push_run v (map (\<lambda>(d, t). StreamMessage c d t) ms @ StreamError c # rest)
        = push_run (push_onerror c ?v1) rest"
    using o by (simp add: push_run_append)
  also have "\<dots> = push_onerror c ?v1"
    using c assms(2) by (rule push_closed_ignores)
  also have "\<dots> = v\<lparr>push_world.activityLogs :=
         push_world.activityLogs v @ map (\<lambda>(d, t). \<lparr>message = trim d, timestamp = t\<rparr>) ms,
       push_world.isRunning := False,
       push_world.eventSources := (push_world.eventSources v)[c := False],
       push_world.trace := push_world.trace v @ replicate (length ms) SetActivityLogs @
         [Close c, SetIsRunning False]\<rparr>"
    using assms(1) by (simp add: push_messages push_onerror_def)
  finally show ?thesis .
qed

text \<open>
  C3, as stated: in both components an end event closes the source, ends the Running
  status and starts reconciliation once. It fails for the component with the combined
  payload, which registers no listener for \<^verbatim>\<open>end\<close>: after a click and an end event
  the flag is still up, the source is still open and nothing has been issued beyond
  the request of the start.
\<close>

theorem end_event_ignored_counterexample:
  "push_world.isRunning (push_run push_init [Click, StreamEnd 0])
   \<and> isOpen (push_world.eventSources (push_run push_init [Click, StreamEnd 0])) 0
   \<and> push_world.trace (push_run push_init [Click, StreamEnd 0]) =
       [SetIsRunning True, SetActivityLogs, NewEventSource 0, Fetch ''http://localhost:8000/run'']"
  by (simp add: push_init_def push_runSystem_def isOpen_def)

text \<open>
  C3, amended: in the component with one request per resource, when an open source
  delivers messages and then the end event, the handler closes that source, sets
  \<^verbatim>\<open>isRunning\<close> to false and calls \<^verbatim>\<open>fetchDashboardData\<close> exactly once (one request
  per resource, issued after the two other calls); later events of that source change
  nothing. The component with the combined payload has no listener for the end event,
  which leaves its state as it is.
\<close>

theorem end_event_settles:
  assumes "isOpen (eventSources w) c" and "\<forall>e \<in> set rest. on_source c e"
  shows "pull_run w (map (\<lambda>(d, t). StreamMessage c d t) ms @ StreamEnd c # rest) =
     w\<lparr>activityLogs := activityLogs w @ map (\<lambda>(d, t). \<lparr>message = trim d, timestamp = t\<rparr>) ms,
       isRunning := False,
       eventSources := (eventSources w)[c := False],
       pending := Suc (pending w),
       trace := trace w @ replicate (length ms) SetActivityLogs @
         [Close c, SetIsRunning False,
          Fetch ''http://localhost:8000/inventory'',
          Fetch ''http://localhost:8000/purchase-orders'',
          Fetch ''http://localhost:8000/sla-violations'']\<rparr>
   \<and> push_step v (StreamEnd c') = v"
  using pull_run_to_end [OF assms] by simp

theorem end_event_settles_witness:
  "isOpen (eventSources (pull_run pull_init [Click])) 0
   \<and> isRunning (pull_run pull_init [Click])
   \<and> on_source 0 (StreamError 0 :: fetched event) \<and> on_source 0 (StreamEnd 0 :: fetched event)
   \<and> \<not> isRunning
       (pull_run (pull_run pull_init [Click])
          [StreamMessage 0 (str ''Placing order PO-1001'') (str ''10:00:02''), StreamEnd 0,
           StreamError 0, StreamEnd 0])
   \<and> eventSources
       (pull_run (pull_run pull_init [Click])
          [StreamMessage 0 (str ''Placing order PO-1001'') (str ''10:00:02''), StreamEnd 0,
           StreamError 0, StreamEnd 0]) = [False]
   \<and> trace
       (pull_run (pull_run pull_init [Click])
          [StreamMessage 0 (str ''Placing order PO-1001'') (str ''10:00:02''), StreamEnd 0,
           StreamError 0, StreamEnd 0]) =
       trace (pull_run pull_init [Click]) @
       [SetActivityLogs, Close 0, SetIsRunning False,
        Fetch ''http://localhost:8000/inventory'',
        Fetch ''http://localhost:8000/purchase-orders'',
        Fetch ''http://localhost:8000/sla-violations'']"
proof -
  let ?w = "pull_run pull_init [Click]"
  have w: "?w = runSystem pull_init"
    by (simp add: pull_init_def fetchDashboardData_def)
  have o: "isOpen (eventSources ?w) 0"
    unfolding w by (simp add: runSystem_def pull_init_def fetchDashboardData_def isOpen_def)
  have s: "eventSources ?w = [True]"
    unfolding w by (simp add: runSystem_def pull_init_def fetchDashboardData_def)
  have r: "isRunning ?w"
    unfolding w by (simp add: runSystem_def)
  have h: "\<forall>e \<in> set [StreamError 0, StreamEnd 0 :: fetched event]. on_source 0 e"
    by simp
  from end_event_settles [OF o h, of "[(str ''Placing order PO-1001'', str ''10:00:02'')]"]
  have "pull_run ?w
          [StreamMessage 0 (str ''Placing order PO-1001'') (str ''10:00:02''), StreamEnd 0,
           StreamError 0, StreamEnd 0] =
        ?w\<lparr>activityLogs := activityLogs ?w @
             [\<lparr>message = trim (str ''Placing order PO-1001''), timestamp = str ''10:00:02''\<rparr>],
           isRunning := False,
           eventSources := (eventSources ?w)[0 := False],
           pending := Suc (pending ?w),
           trace := trace ?w @
             [SetActivityLogs, Close 0, SetIsRunning False,
              Fetch ''http://localhost:8000/inventory'',
              Fetch ''http://localhost:8000/purchase-orders'',
              Fetch ''http://localhost:8000/sla-violations'']\<rparr>"
    by (simp del: pull_run.simps pull_step.simps add: numeral_eq_Suc)
  then show ?thesis
    using o r s by (simp del: pull_run.simps pull_step.simps)
qed

text \<open>
  C5, as stated: in both components an error event closes the source, ends the Running
  status and still starts reconciliation once. It fails for the component with the
  combined payload: its error handler issues no request, so after a click and an error
  the only request is the one of the start, and when that request was rejected the
  store is never reconciled.
\<close>

theorem error_without_fetch_counterexample:
  "push_world.trace (push_run push_init [Click, StreamError 0]) =
     [SetIsRunning True, SetActivityLogs, NewEventSource 0, Fetch ''http://localhost:8000/run'',
      Close 0, SetIsRunning False]
   \<and> push_world.pending (push_run push_init [Click, StreamError 0])
       = push_world.pending (push_run push_init [Click])
   \<and> push_run push_init [Click, Settled Rejected, StreamError 0] =
       push_init\<lparr>push_world.eventSources := [False],
         push_world.trace :=
           [SetIsRunning True, SetActivityLogs, NewEventSource 0,
            Fetch ''http://localhost:8000/run'', Close 0, SetIsRunning False]\<rparr>"
  by (simp add: push_init_def push_runSystem_def push_onerror_def
      push_runSystem_resume_def isOpen_def)

text \<open>
  C5, amended: when an open source delivers messages and then an error, the component
  with one request per resource logs the error, closes that source, sets
  \<^verbatim>\<open>isRunning\<close> to false and calls \<^verbatim>\<open>fetchDashboardData\<close> exactly once; the component
  with the combined payload closes the source and sets \<^verbatim>\<open>isRunning\<close> to false, and
  issues no request. In both, later events of that source change nothing.
\<close>

theorem error_event_terminates:
  assumes "isOpen (eventSources w) c" and "\<forall>e \<in> set rest. on_source c e"
    and "isOpen (push_world.eventSources v) c'" and "\<forall>e \<in> set rest'. on_source c' e"
  shows "pull_run w (map (\<lambda>(d, t). StreamMessage c d t) ms @ StreamError c # rest) =
     w\<lparr>activityLogs := activityLogs w @ map (\<lambda>(d, t). \<lparr>message = trim d, timestamp = t\<rparr>) ms,
       isRunning := False,
       eventSources := (eventSources w)[c := False],
       pending := Suc (pending w),
       trace := trace w @ replicate (length ms) SetActivityLogs @
         [ConsoleError ''Stream error occurred'', Close c, SetIsRunning False,
          Fetch ''http://localhost:8000/inventory'',
          Fetch ''http://localhost:8000/purchase-orders'',
          Fetch ''http://localhost:8000/sla-violations'']\<rparr>
   \<and> push_run v (map (\<lambda>(d, t). StreamMessage c' d t) ms' @ StreamError c' # rest') =
     v\<lparr>push_world.activityLogs :=
         push_world.activityLogs v @ map (\<lambda>(d, t). \<lparr>message = trim d, timestamp = t\<rparr>) ms',
       push_world.isRunning := False,
       push_world.eventSources := (push_world.eventSources v)[c' := False],
       push_world.trace := push_world.trace v @ replicate (length ms') SetActivityLogs @
         [Close c', SetIsRunning False]\<rparr>"
  using pull_run_to_error [OF assms(1,2)] push_run_to_error [OF assms(3,4)] by simp

theorem error_event_terminates_witness:
  "isOpen (eventSources (pull_run pull_init [Click])) 0
   \<and> isRunning (pull_run pull_init [Click])
   \<and> on_source 0 (StreamEnd 0 :: fetched event)
   \<and> pull_run (pull_run pull_init [Click]) [StreamError 0, StreamEnd 0] =
       (pull_run pull_init [Click])
         \<lparr>isRunning := False, eventSources := [False], pending := 2,
          trace := trace (pull_run pull_init [Click]) @
            [ConsoleError ''Stream error occurred'', Close 0, SetIsRunning False,
             Fetch ''http://localhost:8000/inventory'',
             Fetch ''http://localhost:8000/purchase-orders'',
             Fetch ''http://localhost:8000/sla-violations'']\<rparr>
   \<and> isOpen (push_world.eventSources (push_run push_init [Click])) 0
   \<and> push_run (push_run push_init [Click]) [StreamError 0, StreamEnd 0] =
       (push_run push_init [Click])
         \<lparr>push_world.isRunning := False, push_world.eventSources := [False],
          push_world.trace := push_world.trace (push_run push_init [Click]) @
            [Close 0, SetIsRunning False]\<rparr>"
proof -
  let ?w = "pull_run pull_init [Click]"
  let ?v = "push_run push_init [Click]"
  have w: "?w = runSystem pull_init"
    by (simp add: pull_init_def fetchDashboardData_def)
  have v: "?v = push_runSystem push_init"
    by (simp add: push_init_def)
  have o: "isOpen (eventSources ?w) 0"
    unfolding w by (simp add: runSystem_def pull_init_def fetchDashboardData_def isOpen_def)
  have s: "eventSources ?w = [True]" "pending ?w = 1" "activityLogs ?w = []"
    unfolding w by (simp_all add: runSystem_def pull_init_def fetchDashboardData_def)
  have r: "isRunning ?w"
    unfolding w by (simp add: runSystem_def)
  have o': "isOpen (push_world.eventSources ?v) 0"
    unfolding v by (simp add: push_runSystem_def push_init_def isOpen_def)
  have s': "push_world.eventSources ?v = [True]" "push_world.activityLogs ?v = []"
    unfolding v by (simp_all add: push_runSystem_def push_init_def)
  have h: "\<forall>e \<in> set [StreamEnd 0 :: fetched event]. on_source 0 e"
    by simp
  have h': "\<forall>e \<in> set [StreamEnd 0 :: run_body response settled event]. on_source 0 e"
    by simp
  from error_event_terminates [OF o h o' h', of "[]" "[]"]
  have "pull_run ?w [StreamError 0, StreamEnd 0] =
      ?w\<lparr>activityLogs := activityLogs ?w, isRunning := False,
        eventSources := (eventSources ?w)[0 := False], pending := Suc (pending ?w),
        trace := trace ?w @
            [ConsoleError ''Stream error occurred'', Close 0, SetIsRunning False,
             Fetch ''http://localhost:8000/inventory'',
             Fetch ''http://localhost:8000/purchase-orders'',
             Fetch ''http://localhost:8000/sla-violations'']\<rparr>
    \<and> push_run ?v [StreamError 0, StreamEnd 0] =
      ?v\<lparr>push_world.activityLogs := push_world.activityLogs ?v, push_world.isRunning := False,
        push_world.eventSources := (push_world.eventSources ?v)[0 := False],
        push_world.trace := push_world.trace ?v @ [Close 0, SetIsRunning False]\<rparr>"
    by (simp del: pull_run.simps pull_step.simps push_run.simps push_step.simps)
  then show ?thesis
    using o r o' s s'
    by (simp del: pull_run.simps pull_step.simps push_run.simps push_step.simps)
qed

section \<open>The order of reconciliation\<close>

lemma after_terminal_append:
  "i < length tr \<Longrightarrow> after_terminal tr i \<Longrightarrow> after_terminal (tr @ s) i"
  by (auto simp: after_terminal_def nth_append)

lemma after_start_append:
  "i < length tr \<Longrightarrow> after_start tr i \<Longrightarrow> after_start (tr @ s) i"
  by (auto simp: after_start_def nth_append)

lemma pull_fetch_at_append:
  assumes "i < length tr" and "pull_fetch_at tr i u"
  shows "pull_fetch_at (tr @ s) i u"
proof -
  have l: "i - k < length tr" for k
    using assms(1) by arith
  have n: "(tr @ s) ! (i - k) = tr ! (i - k)" for k
    using l [of k] by (simp only: nth_append if_True)
  have t: "after_terminal tr (i - k) \<Longrightarrow> after_terminal (tr @ s) (i - k)" for k
    using l [of k] by (intro after_terminal_append)
  have t0: "after_terminal tr i \<Longrightarrow> after_terminal (tr @ s) i"
    using assms(1) by (intro after_terminal_append)
  from assms(2) have
    "(u = ''http://localhost:8000/inventory'' \<and> (i = 0 \<or> after_terminal tr i))
     \<or> (u = ''http://localhost:8000/purchase-orders'' \<and> 1 \<le> i \<and>
        (i = 1 \<or> after_terminal tr (i - 1)) \<and>
        tr ! (i - 1) = Fetch ''http://localhost:8000/inventory'')
     \<or> (u = ''http://localhost:8000/sla-violations'' \<and> 2 \<le> i \<and>
        (i = 2 \<or> after_terminal tr (i - 2)) \<and>
        tr ! (i - 1) = Fetch ''http://localhost:8000/purchase-orders'' \<and>
        tr ! (i - 2) = Fetch ''http://localhost:8000/inventory'')"
    by (simp only: pull_fetch_at_def)
  then show ?thesis
  proof (elim disjE)
    assume c: "u = ''http://localhost:8000/inventory'' \<and> (i = 0 \<or> after_terminal tr i)"
    from c have u: "u = ''http://localhost:8000/inventory''" by (elim conjE)
    from c have h: "i = 0 \<or> after_terminal tr i" by (elim conjE)
    from h have h': "i = 0 \<or> after_terminal (tr @ s) i"
    proof
      assume "i = 0"
      then show ?thesis by (rule disjI1)
    next
      assume "after_terminal tr i"
      then have "after_terminal (tr @ s) i" by (rule t0)
      then show ?thesis by (rule disjI2)
    qed
    show "pull_fetch_at (tr @ s) i u"
      unfolding pull_fetch_at_def by (rule disjI1, rule conjI, rule u, rule h')
  next
    assume c: "u = ''http://localhost:8000/purchase-orders'' \<and> 1 \<le> i \<and>
        (i = 1 \<or> after_terminal tr (i - 1)) \<and>
        tr ! (i - 1) = Fetch ''http://localhost:8000/inventory''"
    from c have u: "u = ''http://localhost:8000/purchase-orders''" by (elim conjE)
    from c have i: "1 \<le> i" by (elim conjE)
    from c have h: "i = 1 \<or> after_terminal tr (i - 1)" by (elim conjE)
    from c have p: "tr ! (i - 1) = Fetch ''http://localhost:8000/inventory''" by (elim conjE)
    from h have h': "i = 1 \<or> after_terminal (tr @ s) (i - 1)"
    proof
      assume "i = 1"
      then show ?thesis by (rule disjI1)
    next
      assume "after_terminal tr (i - 1)"
      then have "after_terminal (tr @ s) (i - 1)" by (rule t)
      then show ?thesis by (rule disjI2)
    qed
    from p have p': "(tr @ s) ! (i - 1) = Fetch ''http://localhost:8000/inventory''"
      by (simp only: n)
    show "pull_fetch_at (tr @ s) i u"
      unfolding pull_fetch_at_def
      by (rule disjI2, rule disjI1, intro conjI, rule u, rule i, rule h', rule p')
  next
    assume c: "u = ''http://localhost:8000/sla-violations'' \<and> 2 \<le> i \<and>
        (i = 2 \<or> after_terminal tr (i - 2)) \<and>
        tr ! (i - 1) = Fetch ''http://localhost:8000/purchase-orders'' \<and>
        tr ! (i - 2) = Fetch ''http://localhost:8000/inventory''"
    from c have u: "u = ''http://localhost:8000/sla-violations''" by (elim conjE)
    from c have i: "2 \<le> i" by (elim conjE)
    from c have h: "i = 2 \<or> after_terminal tr (i - 2)" by (elim conjE)
    from c have p: "tr ! (i - 1) = Fetch ''http://localhost:8000/purchase-orders''" by (elim conjE)
    from c have q: "tr ! (i - 2) = Fetch ''http://localhost:8000/inventory''" by (elim conjE)
    from h have h': "i = 2 \<or> after_terminal (tr @ s) (i - 2)"
    proof
      assume "i = 2"
      then show ?thesis by (rule disjI1)
    next
      assume "after_terminal tr (i - 2)"
      then have "after_terminal (tr @ s) (i - 2)" by (rule t)
      then show ?thesis by (rule disjI2)
    qed
    from p have p': "(tr @ s) ! (i - 1) = Fetch ''http://localhost:8000/purchase-orders''"
      by (simp only: n)
    from q have q': "(tr @ s) ! (i - 2) = Fetch ''http://localhost:8000/inventory''"
      by (simp only: n)
    show "pull_fetch_at (tr @ s) i u"
      unfolding pull_fetch_at_def
      by (rule disjI2, rule disjI2, intro conjI, rule u, rule i, rule h', rule p', rule q')
  qed
qed

lemma pull_ordered_quiet:
  assumes "pull_fetch_ordered tr" and "\<forall>u. Fetch u \<notin> set s"
  shows "pull_fetch_ordered (tr @ s)"
  unfolding pull_fetch_ordered_def
proof (intro allI impI)
  fix i u
  assume i: "i < length (tr @ s)" and f: "(tr @ s) ! i = Fetch u"
  show "pull_fetch_at (tr @ s) i u"
  proof (cases "i < length tr")
    case True
    with f have "tr ! i = Fetch u" by (simp add: nth_append)
    with assms(1) True have "pull_fetch_at tr i u"
      by (simp add: pull_fetch_ordered_def)
    with True show ?thesis by (rule pull_fetch_at_append)
  next
    case False
    with i f have "s ! (i - length tr) = Fetch u" and "i - length tr < length s"
      by (simp_all add: nth_append)
    then have "Fetch u \<in> set s"
      by (metis nth_mem)
    with assms(2) show ?thesis by simp
  qed
qed

lemma pull_ordered_fetch:
  assumes "pull_fetch_ordered t" and t: "t = tr @ [Close c, SetIsRunning False]"
  shows "pull_fetch_ordered
     (t @ [Fetch ''http://localhost:8000/inventory'',
           Fetch ''http://localhost:8000/purchase-orders'',
           Fetch ''http://localhost:8000/sla-violations''])"
  unfolding pull_fetch_ordered_def
proof (intro allI impI)
  let ?s = "[Fetch ''http://localhost:8000/inventory'',
         Fetch ''http://localhost:8000/purchase-orders'',
         Fetch ''http://localhost:8000/sla-violations'']"
  fix i u
  assume i: "i < length (t @ ?s)" and f: "(t @ ?s) ! i = Fetch u"
  show "pull_fetch_at (t @ ?s) i u"
  proof (cases "i < length t")
    case True
    with f have "t ! i = Fetch u"
      by (simp add: nth_append)
    with assms(1) True have "pull_fetch_at t i u"
      by (simp add: pull_fetch_ordered_def)
    with True show ?thesis by (rule pull_fetch_at_append)
  next
    case False
    with i have "i = length t \<or> i = length t + 1 \<or> i = length t + 2" by auto
    then show ?thesis
    proof (elim disjE)
      assume e: "i = length t"
      with f have "u = ''http://localhost:8000/inventory''" by (simp add: nth_append)
      with e show ?thesis
        by (simp add: pull_fetch_at_def after_terminal_def nth_append t)
    next
      assume e: "i = length t + 1"
      with f have "u = ''http://localhost:8000/purchase-orders''" by (simp add: nth_append)
      with e show ?thesis
        by (simp add: pull_fetch_at_def after_terminal_def nth_append t)
    next
      assume e: "i = length t + 2"
      with f have "u = ''http://localhost:8000/sla-violations''" by (simp add: nth_append)
      with e show ?thesis
        by (simp add: pull_fetch_at_def after_terminal_def nth_append t)
    qed
  qed
qed

lemma pull_step_ordered:
  "pull_fetch_ordered (trace w) \<Longrightarrow> pull_fetch_ordered (trace (pull_step w e))"
proof (cases e)
  case Click
  assume "pull_fetch_ordered (trace w)"
  then have "pull_fetch_ordered
      (trace w @ [SetIsRunning True, SetActivityLogs, NewEventSource (length (eventSources w))])"
    by (rule pull_ordered_quiet) simp
  then show ?thesis
    by (simp add: Click runSystem_def)
next
  case (StreamOpen c)
  assume a: "pull_fetch_ordered (trace w)"
  then have "pull_fetch_ordered (trace w @ [ConsoleLog ''Streaming started''])"
    by (rule pull_ordered_quiet) simp
  with a show ?thesis
    by (simp add: StreamOpen onopen_def)
next
  case (StreamMessage c d t)
  assume a: "pull_fetch_ordered (trace w)"
  then have "pull_fetch_ordered (trace w @ [SetActivityLogs])"
    by (rule pull_ordered_quiet) simp
  with a show ?thesis
    by (simp add: StreamMessage onmessage_def)
next
  case (StreamError c)
  assume a: "pull_fetch_ordered (trace w)"
  then have "pull_fetch_ordered (trace w @ [ConsoleError ''Stream error occurred''])"
    by (rule pull_ordered_quiet) simp
  then have "pull_fetch_ordered
      ((trace w @ [ConsoleError ''Stream error occurred'']) @ [Close c, SetIsRunning False])"
    by (rule pull_ordered_quiet) simp
  then have "pull_fetch_ordered
     (((trace w @ [ConsoleError ''Stream error occurred'']) @ [Close c, SetIsRunning False]) @
        [Fetch ''http://localhost:8000/inventory'',
         Fetch ''http://localhost:8000/purchase-orders'',
         Fetch ''http://localhost:8000/sla-violations''])"
    by (rule pull_ordered_fetch) (rule refl)
  with a show ?thesis
    by (simp add: StreamError onerror_def fetchDashboardData_def)
next
  case (StreamEnd c)
  assume a: "pull_fetch_ordered (trace w)"
  then have "pull_fetch_ordered (trace w @ [Close c, SetIsRunning False])"
    by (rule pull_ordered_quiet) simp
  then have "pull_fetch_ordered
     ((trace w @ [Close c, SetIsRunning False]) @
        [Fetch ''http://localhost:8000/inventory'',
         Fetch ''http://localhost:8000/purchase-orders'',
         Fetch ''http://localhost:8000/sla-violations''])"
    by (rule pull_ordered_fetch) (rule refl)
  with a show ?thesis
    by (simp add: StreamEnd onend_def fetchDashboardData_def)
next
  case (Settled r)
  assume a: "pull_fetch_ordered (trace w)"
  obtain r1 r2 r3 where r: "r = (r1, r2, r3)" by (cases r)
  have q1: "pull_fetch_ordered (trace w @ [ConsoleError ''Failed to load dashboard data:''])"
    using a by (rule pull_ordered_quiet) simp
  have q2: "pull_fetch_ordered (trace w @ [SetInventory, SetPurchaseOrders, SetSlaViolations])"
    using a by (rule pull_ordered_quiet) simp
  have "trace (fetchDashboardData_resume r (w\<lparr>pending := pending w - 1\<rparr>))
          = trace w @ [ConsoleError ''Failed to load dashboard data:'']
      \<or> trace (fetchDashboardData_resume r (w\<lparr>pending := pending w - 1\<rparr>))
          = trace w @ [SetInventory, SetPurchaseOrders, SetSlaViolations]"
    by (auto simp: r fetchDashboardData_resume_def catch_fetch_def split: settled.splits)
  then have "pull_fetch_ordered (trace (fetchDashboardData_resume r (w\<lparr>pending := pending w - 1\<rparr>)))"
    using q1 q2 by auto
  with a show ?thesis by (simp add: Settled)
qed

lemma pull_run_ordered:
  "pull_fetch_ordered (trace w) \<Longrightarrow> pull_fetch_ordered (trace (pull_run w es))"
  by (induction es arbitrary: w) (simp_all add: pull_step_ordered del: pull_step.simps)

lemma pull_init_ordered: "pull_fetch_ordered (trace pull_init)"
proof -
  have "pull_fetch_ordered ([] @ [Fetch ''http://localhost:8000/inventory'',
         Fetch ''http://localhost:8000/purchase-orders'',
         Fetch ''http://localhost:8000/sla-violations''])"
    unfolding pull_fetch_ordered_def
  proof (intro allI impI)
    fix i u
    assume i: "i < length ([] @ [Fetch ''http://localhost:8000/inventory'',
         Fetch ''http://localhost:8000/purchase-orders'',
         Fetch ''http://localhost:8000/sla-violations''])"
      and f: "([] @ [Fetch ''http://localhost:8000/inventory'',
         Fetch ''http://localhost:8000/purchase-orders'',
         Fetch ''http://localhost:8000/sla-violations'']) ! i = Fetch u"
    from i have "i = 0 \<or> i = 1 \<or> i = 2" by auto
    with f show "pull_fetch_at ([] @ [Fetch ''http://localhost:8000/inventory'',
         Fetch ''http://localhost:8000/purchase-orders'',
         Fetch ''http://localhost:8000/sla-violations'']) i u"
      by (auto simp: pull_fetch_at_def)
  qed
  then show ?thesis
    by (simp add: pull_init_def fetchDashboardData_def)
qed

lemma push_ordered_quiet:
  assumes "push_fetch_ordered tr" and "\<forall>u. Fetch u \<notin> set s"
  shows "push_fetch_ordered (tr @ s)"
  unfolding push_fetch_ordered_def
proof (intro allI impI)
  fix i u
  assume i: "i < length (tr @ s)" and f: "(tr @ s) ! i = Fetch u"
  show "u = ''http://localhost:8000/run'' \<and> after_start (tr @ s) i"
  proof (cases "i < length tr")
    case True
    with f have "tr ! i = Fetch u" by (simp add: nth_append)
    with assms(1) True have "u = ''http://localhost:8000/run'' \<and> after_start tr i"
      by (simp add: push_fetch_ordered_def)
    with True show ?thesis by (simp add: after_start_append)
  next
    case False
    with i f have "s ! (i - length tr) = Fetch u" and "i - length tr < length s"
      by (simp_all add: nth_append)
    then have "Fetch u \<in> set s"
      by (metis nth_mem)
    with assms(2) show ?thesis by simp
  qed
qed

lemma push_ordered_start:
  assumes "push_fetch_ordered t" and t: "t = tr @ [SetIsRunning True, SetActivityLogs, NewEventSource n]"
  shows "push_fetch_ordered (t @ [Fetch ''http://localhost:8000/run''])"
  unfolding push_fetch_ordered_def
proof (intro allI impI)
  fix i u
  assume i: "i < length (t @ [Fetch ''http://localhost:8000/run''])"
    and f: "(t @ [Fetch ''http://localhost:8000/run'']) ! i = Fetch u"
  show "u = ''http://localhost:8000/run'' \<and> after_start (t @ [Fetch ''http://localhost:8000/run'']) i"
  proof (cases "i < length t")
    case True
    with f have "t ! i = Fetch u"
      by (simp add: nth_append)
    with assms(1) True have "u = ''http://localhost:8000/run'' \<and> after_start t i"
      by (simp add: push_fetch_ordered_def)
    with True show ?thesis by (simp add: after_start_append)
  next
    case False
    with i have e: "i = length t" by auto
    with f have "u = ''http://localhost:8000/run''" by (simp add: nth_append)
    with e show ?thesis
      by (simp add: after_start_def nth_append t)
  qed
qed

lemma push_step_ordered:
  "push_fetch_ordered (push_world.trace w) \<Longrightarrow> push_fetch_ordered (push_world.trace (push_step w e))"
proof (cases e)
  case Click
  assume a: "push_fetch_ordered (push_world.trace w)"
  then have "push_fetch_ordered (push_world.trace w @
      [SetIsRunning True, SetActivityLogs, NewEventSource (length (push_world.eventSources w))])"
    by (rule push_ordered_quiet) simp
  then have "push_fetch_ordered ((push_world.trace w @
      [SetIsRunning True, SetActivityLogs, NewEventSource (length (push_world.eventSources w))])
      @ [Fetch ''http://localhost:8000/run''])"
    by (rule push_ordered_start) (rule refl)
  then show ?thesis
    by (simp add: Click push_runSystem_def)
next
  case (StreamOpen c)
  assume "push_fetch_ordered (push_world.trace w)"
  then show ?thesis by (simp add: StreamOpen)
next
  case (StreamMessage c d t)
  assume a: "push_fetch_ordered (push_world.trace w)"
  then have "push_fetch_ordered (push_world.trace w @ [SetActivityLogs])"
    by (rule push_ordered_quiet) simp
  with a show ?thesis
    by (simp add: StreamMessage push_onmessage_def)
next
  case (StreamError c)
  assume a: "push_fetch_ordered (push_world.trace w)"
  then have "push_fetch_ordered (push_world.trace w @ [Close c, SetIsRunning False])"
    by (rule push_ordered_quiet) simp
  with a show ?thesis
    by (simp add: StreamError push_onerror_def)
next
  case (StreamEnd c)
  assume "push_fetch_ordered (push_world.trace w)"
  then show ?thesis by (simp add: StreamEnd)
next
  case (Settled r)
  assume a: "push_fetch_ordered (push_world.trace w)"
  have q: "push_fetch_ordered (push_world.trace w @
             [SetInventory, SetPurchaseOrders, SetRestockPlan, SetSlaViolations, SetMetrics])"
    using a by (rule push_ordered_quiet) simp
  have "push_world.trace (push_runSystem_resume r (w\<lparr>push_world.pending := push_world.pending w - 1\<rparr>))
          = push_world.trace w
      \<or> push_world.trace (push_runSystem_resume r (w\<lparr>push_world.pending := push_world.pending w - 1\<rparr>))
          = push_world.trace w @
             [SetInventory, SetPurchaseOrders, SetRestockPlan, SetSlaViolations, SetMetrics]"
    by (auto simp: push_runSystem_resume_def split: settled.splits run_body.splits)
  then have "push_fetch_ordered
      (push_world.trace (push_runSystem_resume r (w\<lparr>push_world.pending := push_world.pending w - 1\<rparr>)))"
    using a q by auto
  with a show ?thesis by (simp add: Settled)
qed

lemma push_run_ordered:
  "push_fetch_ordered (push_world.trace w) \<Longrightarrow> push_fetch_ordered (push_world.trace (push_run w es))"
  by (induction es arbitrary: w) (simp_all add: push_step_ordered del: push_step.simps)

lemma push_init_ordered: "push_fetch_ordered (push_world.trace push_init)"
  by (simp add: push_fetch_ordered_def push_init_def)

lemma push_settled_object:
  "0 < push_world.pending v \<Longrightarrow> json res = Fulfilled (JObject d) \<Longrightarrow>
   push_step v (Settled (Fulfilled res)) =
     v\<lparr>push_world.inventory := inventory_data d,
       push_world.purchaseOrders := purchase_orders d,
       push_world.restockPlan := restock_plan d,
       push_world.slaViolations := sla_violations d,
       push_world.metrics := run_data.metrics d,
       push_world.pending := push_world.pending v - 1,
       push_world.trace := push_world.trace v @
         [SetInventory, SetPurchaseOrders, SetRestockPlan, SetSlaViolations, SetMetrics]\<rparr>"
  by (simp add: push_runSystem_resume_def)

text \<open>
  C6, as stated: no reconciliation effect comes before the terminal event of its run
  has been processed. It fails for the component with the combined payload: the
  request to \<^verbatim>\<open>/run\<close> is issued by the start itself, and its payload is stored while
  the flag is up and the source open.
\<close>

theorem run_fetch_before_terminal_counterexample:
  "push_world.trace (push_run push_init [Click]) =
     [SetIsRunning True, SetActivityLogs, NewEventSource 0, Fetch ''http://localhost:8000/run'']
   \<and> push_world.inventory
       (push_run push_init [Click, Settled (ok_response (JObject payload_without_metrics))])
       = Some [example_item ''nut'' 20 5]
   \<and> push_world.isRunning
       (push_run push_init [Click, Settled (ok_response (JObject payload_without_metrics))])
   \<and> isOpen (push_world.eventSources
       (push_run push_init [Click, Settled (ok_response (JObject payload_without_metrics))])) 0"
  by (simp add: push_init_def push_runSystem_def push_runSystem_resume_def
      ok_response_def payload_without_metrics_def isOpen_def)

text \<open>
  C6, amended: in the component with one request per resource, each of the three
  requests of a reconciliation other than the one of the mount is issued by a terminal
  handler after it closed the source and set \<^verbatim>\<open>isRunning\<close> to false: the request to
  \<^verbatim>\<open>/inventory\<close> right after those two calls, the requests to \<^verbatim>\<open>/purchase-orders\<close>
  and \<^verbatim>\<open>/sla-violations\<close> right after it, in that order; the component issues no
  other request. In the component with the combined payload every request is the one
  to \<^verbatim>\<open>/run\<close>, issued by \<^verbatim>\<open>runSystem\<close> right after its three opening calls, the
  last of which creates the source; and when a pending request settles with an object
  body, the payload is stored in that turn, whatever \<^verbatim>\<open>isRunning\<close> and the sources
  are at that moment, and both are left as they are.
\<close>

theorem fetch_order:
  "(i < length (trace (pull_run pull_init es)) \<and> trace (pull_run pull_init es) ! i = Fetch u \<longrightarrow>
      pull_fetch_at (trace (pull_run pull_init es)) i u)
   \<and> (j < length (push_world.trace (push_run push_init es')) \<and>
      push_world.trace (push_run push_init es') ! j = Fetch u' \<longrightarrow>
      u' = ''http://localhost:8000/run'' \<and>
      after_start (push_world.trace (push_run push_init es')) j)
   \<and> (0 < push_world.pending v \<and> json res = Fulfilled (JObject d) \<longrightarrow>
      push_step v (Settled (Fulfilled res)) =
        v\<lparr>push_world.inventory := inventory_data d,
          push_world.purchaseOrders := purchase_orders d,
          push_world.restockPlan := restock_plan d,
          push_world.slaViolations := sla_violations d,
          push_world.metrics := run_data.metrics d,
          push_world.pending := push_world.pending v - 1,
          push_world.trace := push_world.trace v @
            [SetInventory, SetPurchaseOrders, SetRestockPlan, SetSlaViolations, SetMetrics]\<rparr>)"
proof (intro conjI impI)
  assume "i < length (trace (pull_run pull_init es)) \<and> trace (pull_run pull_init es) ! i = Fetch u"
  with pull_run_ordered [OF pull_init_ordered, of es]
  show "pull_fetch_at (trace (pull_run pull_init es)) i u"
    unfolding pull_fetch_ordered_def by blast
next
  assume j: "j < length (push_world.trace (push_run push_init es')) \<and>
      push_world.trace (push_run push_init es') ! j = Fetch u'"
  with push_run_ordered [OF push_init_ordered, of es']
  show "u' = ''http://localhost:8000/run''"
    unfolding push_fetch_ordered_def by blast
  from j push_run_ordered [OF push_init_ordered, of es']
  show "after_start (push_world.trace (push_run push_init es')) j"
    unfolding push_fetch_ordered_def by blast
next
  assume "0 < push_world.pending v \<and> json res = Fulfilled (JObject d)"
  then show "push_step v (Settled (Fulfilled res)) =
        v\<lparr>push_world.inventory := inventory_data d,
          push_world.purchaseOrders := purchase_orders d,
          push_world.restockPlan := restock_plan d,
          push_world.slaViolations := sla_violations d,
          push_world.metrics := run_data.metrics d,
          push_world.pending := push_world.pending v - 1,
          push_world.trace := push_world.trace v @
            [SetInventory, SetPurchaseOrders, SetRestockPlan, SetSlaViolations, SetMetrics]\<rparr>"
    by (simp only: push_settled_object)
qed

theorem fetch_order_witness:
  "trace (pull_run pull_init [Click, StreamEnd 0]) ! 9 = Fetch ''http://localhost:8000/purchase-orders''
   \<and> pull_fetch_at (trace (pull_run pull_init [Click, StreamEnd 0])) 9
       ''http://localhost:8000/purchase-orders''
   \<and> after_terminal (trace (pull_run pull_init [Click, StreamEnd 0])) 8
   \<and> push_world.trace (push_run push_init [Click]) ! 3 = Fetch ''http://localhost:8000/run''
   \<and> after_start (push_world.trace (push_run push_init [Click])) 3
   \<and> push_world.isRunning (push_run push_init [Click])
   \<and> isOpen (push_world.eventSources (push_run push_init [Click])) 0
   \<and> push_world.inventory
       (push_step (push_run push_init [Click])
          (Settled (Fulfilled \<lparr>http_status = 200, json = Fulfilled (JObject payload_without_metrics)\<rparr>)))
       = Some [example_item ''nut'' 20 5]
   \<and> push_world.isRunning
       (push_step (push_run push_init [Click])
          (Settled (Fulfilled \<lparr>http_status = 200, json = Fulfilled (JObject payload_without_metrics)\<rparr>)))"
proof -
  let ?res = "\<lparr>http_status = 200, json = Fulfilled (JObject payload_without_metrics)\<rparr>"
  let ?v = "push_run push_init [Click]"
  have t: "trace (pull_run pull_init [Click, StreamEnd 0]) =
     [Fetch ''http://localhost:8000/inventory'',
      Fetch ''http://localhost:8000/purchase-orders'',
      Fetch ''http://localhost:8000/sla-violations'',
      SetIsRunning True, SetActivityLogs, NewEventSource 0, Close 0, SetIsRunning False,
      Fetch ''http://localhost:8000/inventory'',
      Fetch ''http://localhost:8000/purchase-orders'',
      Fetch ''http://localhost:8000/sla-violations'']"
    by (simp add: pull_init_def fetchDashboardData_def runSystem_def onend_def isOpen_def)
  have v: "?v = push_runSystem push_init"
    by simp
  have p: "push_world.trace ?v =
     [SetIsRunning True, SetActivityLogs, NewEventSource 0, Fetch ''http://localhost:8000/run'']"
    by (simp add: push_init_def push_runSystem_def)
  have s: "push_world.isRunning ?v" "isOpen (push_world.eventSources ?v) 0"
    by (simp_all add: push_init_def push_runSystem_def isOpen_def)
  have 1: "9 < length (trace (pull_run pull_init [Click, StreamEnd 0]))
      \<and> trace (pull_run pull_init [Click, StreamEnd 0]) ! 9 = Fetch ''http://localhost:8000/purchase-orders''"
    unfolding t by simp
  have 2: "3 < length (push_world.trace ?v)
      \<and> push_world.trace ?v ! 3 = Fetch ''http://localhost:8000/run''"
    unfolding p by simp
  have 3: "0 < push_world.pending ?v \<and> json ?res = Fulfilled (JObject payload_without_metrics)"
    by (simp add: push_init_def push_runSystem_def)
  note F = fetch_order [of 9 "[Click, StreamEnd 0]" "''http://localhost:8000/purchase-orders''"
      3 "[Click]" "''http://localhost:8000/run''" ?v ?res payload_without_metrics]
  have a: "pull_fetch_at (trace (pull_run pull_init [Click, StreamEnd 0])) 9
       ''http://localhost:8000/purchase-orders''"
    by (rule conjunct1 [OF F, THEN mp, OF 1])
  have b: "after_start (push_world.trace ?v) 3"
    by (rule conjunct2 [OF conjunct1 [OF conjunct2 [OF F], THEN mp, OF 2]])
  have c: "push_step ?v (Settled (Fulfilled ?res)) =
        ?v\<lparr>push_world.inventory := inventory_data payload_without_metrics,
          push_world.purchaseOrders := purchase_orders payload_without_metrics,
          push_world.restockPlan := restock_plan payload_without_metrics,
          push_world.slaViolations := sla_violations payload_without_metrics,
          push_world.metrics := run_data.metrics payload_without_metrics,
          push_world.pending := push_world.pending ?v - 1,
          push_world.trace := push_world.trace ?v @
            [SetInventory, SetPurchaseOrders, SetRestockPlan, SetSlaViolations, SetMetrics]\<rparr>"
    by (rule conjunct2 [OF conjunct2 [OF F], THEN mp, OF 3])
  from a have d: "after_terminal (trace (pull_run pull_init [Click, StreamEnd 0])) 8"
    by (simp add: pull_fetch_at_def)
  have e: "push_world.inventory (push_step ?v (Settled (Fulfilled ?res)))
      = Some [example_item ''nut'' 20 5]"
    by (subst c) (simp add: payload_without_metrics_def)
  have f: "push_world.isRunning (push_step ?v (Settled (Fulfilled ?res)))"
    by (subst c) (simp add: s(1) del: push_run.simps)
  from 1 have g: "trace (pull_run pull_init [Click, StreamEnd 0]) ! 9
      = Fetch ''http://localhost:8000/purchase-orders''" by (rule conjunct2)
  from 2 have h: "push_world.trace ?v ! 3 = Fetch ''http://localhost:8000/run''"
    by (rule conjunct2)
  from g a d h b s e f show ?thesis
    by (intro conjI)
qed

section \<open>Reconciliation from the combined payload\<close>

text \<open>
  C4, as stated: a payload with a missing field is rejected whole and the store keeps
  its previous snapshot. It fails: with \<^verbatim>\<open>metrics\<close> missing, the inventory slot is
  replaced all the same and the metrics slot becomes \<^verbatim>\<open>undefined\<close>.
\<close>

theorem partial_payload_applied_counterexample:
  "push_runSystem_resume (ok_response (JObject payload_without_metrics)) push_init \<noteq> push_init
   \<and> push_world.inventory
       (push_runSystem_resume (ok_response (JObject payload_without_metrics)) push_init)
       = Some [example_item ''nut'' 20 5]
   \<and> push_world.metrics
       (push_runSystem_resume (ok_response (JObject payload_without_metrics)) push_init)
       = None"
proof -
  have i: "push_world.inventory
       (push_runSystem_resume (ok_response (JObject payload_without_metrics)) push_init)
       = Some [example_item ''nut'' 20 5]"
    by (simp add: push_runSystem_resume_def ok_response_def payload_without_metrics_def)
  have m: "push_world.metrics
       (push_runSystem_resume (ok_response (JObject payload_without_metrics)) push_init)
       = None"
    by (simp add: push_runSystem_resume_def ok_response_def payload_without_metrics_def)
  have "push_world.inventory push_init = Some []"
    by (simp add: push_init_def)
  with i have "push_runSystem_resume (ok_response (JObject payload_without_metrics)) push_init \<noteq> push_init"
    by auto
  with i m show ?thesis by simp
qed

text \<open>
  C4, amended: the payload is applied without validation. When the request succeeds and
  the body is an object, each of the five slots is set to the field of its name,
  \<^verbatim>\<open>undefined\<close> when the field is missing, whatever the other fields are. The store is
  left as it was only when the request is rejected, the body is not JSON or the body is
  \<^verbatim>\<open>null\<close>.
\<close>

theorem run_payload_applied_fieldwise:
  "(json res = Fulfilled (JObject d) \<longrightarrow>
      push_runSystem_resume (Fulfilled res) w =
        w\<lparr>push_world.inventory := inventory_data d,
          push_world.purchaseOrders := purchase_orders d,
          push_world.restockPlan := restock_plan d,
          push_world.slaViolations := sla_violations d,
          push_world.metrics := run_data.metrics d,
          push_world.trace := push_world.trace w @
            [SetInventory, SetPurchaseOrders, SetRestockPlan, SetSlaViolations, SetMetrics]\<rparr>)
   \<and> (json res = Rejected \<or> json res = Fulfilled JNull \<longrightarrow>
      push_runSystem_resume (Fulfilled res) w = w)
   \<and> push_runSystem_resume Rejected w = w"
  by (auto simp: push_runSystem_resume_def)

theorem run_payload_applied_fieldwise_witness:
  "push_runSystem_resume (ok_response (JObject payload_without_metrics)) push_init =
     push_init\<lparr>push_world.inventory := Some [example_item ''nut'' 20 5],
       push_world.metrics := None,
       push_world.trace :=
         [SetInventory, SetPurchaseOrders, SetRestockPlan, SetSlaViolations, SetMetrics]\<rparr>
   \<and> push_runSystem_resume (Fulfilled \<lparr>http_status = 200, json = Fulfilled JNull\<rparr>) push_init
       = push_init"
proof -
  have 1: "json \<lparr>http_status = 200, json = Fulfilled (JObject payload_without_metrics)\<rparr>
        = Fulfilled (JObject payload_without_metrics)"
    by simp
  have 2: "json \<lparr>http_status = 200, json = Fulfilled JNull\<rparr> = Rejected
      \<or> json \<lparr>http_status = 200, json = Fulfilled JNull\<rparr> = Fulfilled JNull"
    by simp
  from run_payload_applied_fieldwise [of "\<lparr>http_status = 200, json = Fulfilled (JObject payload_without_metrics)\<rparr>"
      payload_without_metrics push_init] 1
    run_payload_applied_fieldwise [of "\<lparr>http_status = 200, json = Fulfilled JNull\<rparr>" payload_without_metrics push_init] 2
  show ?thesis
    by (simp add: ok_response_def payload_without_metrics_def push_init_def)
qed

section \<open>Reconciliation by separate requests\<close>

lemma resume_all_ok:
  "json a = Fulfilled x \<Longrightarrow> json b = Fulfilled y \<Longrightarrow> json c = Fulfilled z \<Longrightarrow>
   fetchDashboardData_resume (Fulfilled a, Fulfilled b, Fulfilled c) w =
     w\<lparr>inventory := or_empty x, purchaseOrders := or_empty y, slaViolations := or_empty z,
       trace := trace w @ [SetInventory, SetPurchaseOrders, SetSlaViolations]\<rparr>"
  by (simp add: fetchDashboardData_resume_def)

lemma resume_fail:
  "get_fails r1 \<or> get_fails r2 \<or> get_fails r3 \<Longrightarrow>
   fetchDashboardData_resume (r1, r2, r3) w = catch_fetch w"
  by (cases r1; cases r2; cases r3)
     (auto simp: fetchDashboardData_resume_def split: settled.splits)

lemma resume_no_fail:
  assumes "\<not> get_fails r1" and "\<not> get_fails r2" and "\<not> get_fails r3"
  shows "\<exists>a b c x y z. r1 = Fulfilled a \<and> r2 = Fulfilled b \<and> r3 = Fulfilled c \<and>
           json a = Fulfilled x \<and> json b = Fulfilled y \<and> json c = Fulfilled z"
proof -
  obtain a where a: "r1 = Fulfilled a" using assms(1) by (cases r1) auto
  obtain b where b: "r2 = Fulfilled b" using assms(2) by (cases r2) auto
  obtain c where c: "r3 = Fulfilled c" using assms(3) by (cases r3) auto
  obtain x where x: "json a = Fulfilled x" using assms(1) a by (cases "json a") auto
  obtain y where y: "json b = Fulfilled y" using assms(2) b by (cases "json b") auto
  obtain z where z: "json c = Fulfilled z" using assms(3) c by (cases "json c") auto
  from a b c x y z show ?thesis by blast
qed

text \<open>
  C1, as stated: when exactly one of the three requests fails, the other two slots are
  updated from their responses. It fails: with new inventory and purchase orders
  delivered and \<^verbatim>\<open>/sla-violations\<close> answering 500 with a body that is not JSON,
  the inventory slot still holds the previous snapshot.
\<close>

theorem one_failure_blocks_all_counterexample:
  "inventory
     (fetchDashboardData_resume
        (ok_response (Arr [example_item ''nut'' 20 5]), ok_response (Arr []),
         Fulfilled \<lparr>http_status = 500, json = Rejected\<rparr>)
        stale_world)
     = [example_item ''bolt'' 5 10]
   \<and> [example_item ''bolt'' 5 10] \<noteq> or_empty (Arr [example_item ''nut'' 20 5])"
  by (simp add: fetchDashboardData_resume_def ok_response_def stale_world_def catch_fetch_def
      example_item_def str_def)

text \<open>
  C1, amended: when at least one of the three requests fails, no slot is updated (all
  three keep their previous snapshot) and exactly one error is logged; when none
  fails, the three slots are replaced together, each by its decoded body or by the
  empty array.
\<close>

theorem fetch_all_or_nothing:
  "(get_fails r1 \<or> get_fails r2 \<or> get_fails r3 \<longrightarrow>
      fetchDashboardData_resume (r1, r2, r3) w =
        w\<lparr>trace := trace w @ [ConsoleError ''Failed to load dashboard data:'']\<rparr>)
   \<and> (\<not> get_fails r1 \<and> \<not> get_fails r2 \<and> \<not> get_fails r3 \<longrightarrow>
      (\<exists>a b c x y z.
         r1 = Fulfilled a \<and> r2 = Fulfilled b \<and> r3 = Fulfilled c \<and>
         json a = Fulfilled x \<and> json b = Fulfilled y \<and> json c = Fulfilled z \<and>
         fetchDashboardData_resume (r1, r2, r3) w =
           w\<lparr>inventory := or_empty x, purchaseOrders := or_empty y,
             slaViolations := or_empty z,
             trace := trace w @ [SetInventory, SetPurchaseOrders, SetSlaViolations]\<rparr>))"
proof (intro conjI impI)
  assume "get_fails r1 \<or> get_fails r2 \<or> get_fails r3"
  then show "fetchDashboardData_resume (r1, r2, r3) w =
      w\<lparr>trace := trace w @ [ConsoleError ''Failed to load dashboard data:'']\<rparr>"
    by (simp add: resume_fail catch_fetch_def)
next
  assume "\<not> get_fails r1 \<and> \<not> get_fails r2 \<and> \<not> get_fails r3"
  then obtain a b c x y z where
    h: "r1 = Fulfilled a" "r2 = Fulfilled b" "r3 = Fulfilled c"
       "json a = Fulfilled x" "json b = Fulfilled y" "json c = Fulfilled z"
    using resume_no_fail by blast
  then show "\<exists>a b c x y z.
         r1 = Fulfilled a \<and> r2 = Fulfilled b \<and> r3 = Fulfilled c \<and>
         json a = Fulfilled x \<and> json b = Fulfilled y \<and> json c = Fulfilled z \<and>
         fetchDashboardData_resume (r1, r2, r3) w =
           w\<lparr>inventory := or_empty x, purchaseOrders := or_empty y,
             slaViolations := or_empty z,
             trace := trace w @ [SetInventory, SetPurchaseOrders, SetSlaViolations]\<rparr>"
    using resume_all_ok [OF h(4) h(5) h(6)] by blast
qed

theorem fetch_all_or_nothing_witness:
  "fetchDashboardData_resume
     (ok_response (Arr [example_item ''nut'' 20 5]), ok_response (Arr []),
      Fulfilled \<lparr>http_status = 500, json = Rejected\<rparr>)
     stale_world
     = stale_world\<lparr>trace := [ConsoleError ''Failed to load dashboard data:'']\<rparr>
   \<and> inventory
       (fetchDashboardData_resume
          (ok_response (Arr [example_item ''nut'' 20 5]), ok_response (Arr []),
           ok_response Falsy)
          stale_world)
       = [example_item ''nut'' 20 5]"
proof -
  let ?bad = "Fulfilled \<lparr>http_status = 500, json = Rejected\<rparr> :: SLAViolation decoded response settled"
  let ?r1 = "ok_response (Arr [example_item ''nut'' 20 5])"
  let ?r2 = "ok_response (Arr []) :: PurchaseOrder decoded response settled"
  have f: "get_fails ?r1 \<or> get_fails ?r2 \<or> get_fails ?bad"
    by simp
  have g: "\<not> get_fails ?r1 \<and> \<not> get_fails ?r2
           \<and> \<not> get_fails (ok_response Falsy :: SLAViolation decoded response settled)"
    by (simp add: ok_response_def)
  from fetch_all_or_nothing [of ?r1 ?r2 ?bad stale_world] f
  have 1: "fetchDashboardData_resume (?r1, ?r2, ?bad) stale_world
           = stale_world\<lparr>trace := trace stale_world @ [ConsoleError ''Failed to load dashboard data:'']\<rparr>"
    by blast
  from fetch_all_or_nothing [of ?r1 ?r2 "ok_response Falsy" stale_world] g
  obtain a x where "?r1 = Fulfilled a" "json a = Fulfilled x"
    "inventory (fetchDashboardData_resume (?r1, ?r2, ok_response Falsy) stale_world) = or_empty x"
    by force
  then have 2: "inventory (fetchDashboardData_resume (?r1, ?r2, ok_response Falsy) stale_world)
           = [example_item ''nut'' 20 5]"
    by (auto simp: ok_response_def)
  from 1 2 show ?thesis by (simp add: stale_world_def)
qed

text \<open>
  C10: when all three requests succeed and a decoded body is falsy, the slot of that
  resource becomes the empty array, whatever it held before.
\<close>

theorem falsy_body_empties_slot:
  assumes "json a = Fulfilled x" and "json b = Fulfilled y" and "json c = Fulfilled z"
  shows "(x = Falsy \<longrightarrow>
            inventory (fetchDashboardData_resume (Fulfilled a, Fulfilled b, Fulfilled c) w) = [])
       \<and> (y = Falsy \<longrightarrow>
            purchaseOrders (fetchDashboardData_resume (Fulfilled a, Fulfilled b, Fulfilled c) w) = [])
       \<and> (z = Falsy \<longrightarrow>
            slaViolations (fetchDashboardData_resume (Fulfilled a, Fulfilled b, Fulfilled c) w) = [])"
  using assms by (simp add: resume_all_ok)

theorem falsy_body_empties_slot_witness:
  "inventory stale_world = [example_item ''bolt'' 5 10]
   \<and> inventory
       (fetchDashboardData_resume
          (Fulfilled \<lparr>http_status = 200, json = Fulfilled Falsy\<rparr>,
           Fulfilled \<lparr>http_status = 200, json = Fulfilled (Arr [])\<rparr>,
           Fulfilled \<lparr>http_status = 200, json = Fulfilled (Arr [])\<rparr>)
          stale_world) = []"
  using falsy_body_empties_slot
    [of "\<lparr>http_status = 200, json = Fulfilled Falsy\<rparr>" Falsy
        "\<lparr>http_status = 200, json = Fulfilled (Arr [])\<rparr>" "Arr []"
        "\<lparr>http_status = 200, json = Fulfilled (Arr [])\<rparr>" "Arr []" stale_world]
  by (simp add: stale_world_def)

section \<open>Derived values\<close>

text \<open>
  C9: the low-stock count is computed from the inventory slot alone: it is the number
  of positions whose item has a stock level below its reorder threshold, two worlds
  with the same inventory give the same items, and for an inventory of one item with
  stock 5 and threshold 10 and one with stock 20 and threshold 5 the count is 1.
\<close>

theorem lowStockItems_derived:
  "length (lowStockItems w) =
     card {i. i < length (inventory w) \<and>
            stock_level (inventory w ! i) < reorder_threshold (inventory w ! i)}
   \<and> (inventory w = inventory w' \<longrightarrow> lowStockItems w = lowStockItems w')
   \<and> (stock_level a = 5 \<and> reorder_threshold a = 10 \<and>
      stock_level b = 20 \<and> reorder_threshold b = 5 \<longrightarrow>
        length (lowStockItems (w\<lparr>inventory := [a, b]\<rparr>)) = 1)"
  by (simp add: lowStockItems_def length_filter_conv_card)

theorem lowStockItems_derived_witness:
  "length (lowStockItems
     (stale_world\<lparr>inventory := [example_item ''bolt'' 5 10, example_item ''nut'' 20 5]\<rparr>)) = 1
   \<and> lowStockItems (stale_world\<lparr>isRunning := True\<rparr>) = lowStockItems stale_world"
proof -
  have 1: "stock_level (example_item ''bolt'' 5 10) = 5 \<and>
        reorder_threshold (example_item ''bolt'' 5 10) = 10 \<and>
        stock_level (example_item ''nut'' 20 5) = 20 \<and>
        reorder_threshold (example_item ''nut'' 20 5) = 5"
    by (simp add: example_item_def)
  have 2: "inventory (stale_world\<lparr>isRunning := True\<rparr>) = inventory stale_world"
    by simp
  from lowStockItems_derived
    [of "stale_world\<lparr>isRunning := True\<rparr>" stale_world
        "example_item ''bolt'' 5 10" "example_item ''nut'' 20 5"] 1 2
  show ?thesis
    using lowStockItems_derived [of stale_world stale_world
        "example_item ''bolt'' 5 10" "example_item ''nut'' 20 5"]
    by blast
qed

end
